theory Spec2Isabelle
  imports Main
begin

section \<open>Values, documents and the store\<close>

text \<open>
  The values the integrity checker handles. A scalar is an ObjectId, a string, a number
  or a boolean; an array element is a sub-document, with its ObjectId as \<open>_id\<close> and its
  other fields, or a scalar; a field value is what \<open>document.get(path)\<close> returns. Arrays
  with null elements and sub-documents without an ObjectId are outside the model.
\<close>

datatype scalar = Oid nat | Str string | Num int | Bool bool

datatype elem = SubDoc nat "(string \<times> scalar) list" | Prim scalar

datatype jsval = JNull | JUndefined | JScalar scalar | JArr "elem list"

datatype error =
    SubRefConstraintError string string string string jsval
      \<comment> \<open>modelSubRef, pathSubRef, modelRef, pathRef, constrainedDocId\<close>
  | ValidatorError string string string string jsval
      \<comment> \<open>the \<open>Error\<close> of the validator: the same five values, in its message\<close>
  | TypeError
  | MissingSchemaError
  | OverwriteModelError
  | FuelExhausted

text \<open>JavaScript truthiness, as the conditional operator and \<open>||\<close> test it.\<close>

fun truthy_scalar :: "scalar \<Rightarrow> bool" where
  "truthy_scalar (Oid _) = True"
| "truthy_scalar (Str s) = (s \<noteq> [])"
| "truthy_scalar (Num n) = (n \<noteq> 0)"
| "truthy_scalar (Bool b) = b"

fun truthy :: "jsval \<Rightarrow> bool" where
  "truthy JNull = False"
| "truthy JUndefined = False"
| "truthy (JScalar s) = truthy_scalar s"
| "truthy (JArr _) = True"

text \<open>
  A stored document: its \<open>_id\<close>, the model it belongs to, its fields by dotted path
  (the view \<open>document.get\<close> gives) and the soft-delete flag \<open>_deleted\<close>.
\<close>

record doc =
  doc_id :: jsval
  doc_model :: string
  doc_fields :: "(string \<times> jsval) list"
  doc_deleted :: bool

definition get :: "doc \<Rightarrow> string \<Rightarrow> jsval" where
  "get d p = (case map_of (doc_fields d) p of None \<Rightarrow> JUndefined | Some v \<Rightarrow> v)"

definition set_path :: "doc \<Rightarrow> string \<Rightarrow> jsval \<Rightarrow> doc" where
  "set_path d p v = d\<lparr>doc_fields := (p, v) # filter (\<lambda>kv. fst kv \<noteq> p) (doc_fields d)\<rparr>"

type_synonym db = "string \<Rightarrow> doc list"

text \<open>The query objects the checker builds and hands to the store.\<close>

datatype findQuery =
    ById jsval                      \<comment> \<open>\<open>{ _id: boundRefValue }\<close>\<close>
  | PathIn string "scalar list"     \<comment> \<open>\<open>{ [pathRef]: { $in: referencedValues } }\<close>\<close>

datatype updateQuery =
    Pull string "scalar list"       \<comment> \<open>\<open>{ $pull: { [updatePath]: { $in: referencedValues } } }\<close>\<close>
  | SetNull string                  \<comment> \<open>\<open>{ $set: { [updatePath]: null } }\<close>\<close>

datatype arrayFilters =
    ArrayFilterIn string "scalar list"  \<comment> \<open>\<open>[{ [`j.${path}`]: { $in: referencedValues } }]\<close>\<close>

text \<open>
  The store is an external collaborator. Its two judgements, which document a query
  matches and what an update does to one document, are parameters of the model; the
  collection operations are the usual ones over them.
\<close>

record mongo =
  query_matches :: "findQuery \<Rightarrow> doc \<Rightarrow> bool"
  applyUpdate :: "updateQuery \<Rightarrow> arrayFilters option \<Rightarrow> doc \<Rightarrow> doc"

definition find_docs :: "mongo \<Rightarrow> db \<Rightarrow> string \<Rightarrow> findQuery \<Rightarrow> doc list" where
  "find_docs M db m q = filter (query_matches M q) (db m)"

definition findOne :: "mongo \<Rightarrow> db \<Rightarrow> string \<Rightarrow> findQuery \<Rightarrow> doc option" where
  "findOne M db m q = List.find (query_matches M q) (db m)"

definition updateMany ::
  "mongo \<Rightarrow> db \<Rightarrow> string \<Rightarrow> findQuery \<Rightarrow> updateQuery \<Rightarrow> arrayFilters option \<Rightarrow> db" where
  "updateMany M db m q u af =
     db(m := map (\<lambda>d. if query_matches M q d then applyUpdate M u af d else d) (db m))"

section \<open>Schemas\<close>

text \<open>
  What the checker reads of a schema type: its constructor's name, its \<open>options\<close>
  (\<open>subRef\<close>, \<open>boundTo\<close> and, for an array, the declaration \<open>options.type[0]\<close> of its
  elements), the properties \<open>required\<close> and \<open>cascade\<close> as truth values, and the nested
  schema of a sub-document or document array. A declaration is the plain object the
  user wrote for the elements of an array; it has \<open>subRef\<close>, \<open>required\<close> and \<open>cascade\<close>
  of its own, and an \<open>options\<close> property only if the user wrote one.
\<close>

record sopts =
  subRef :: "string option"
  boundTo :: "string option"

record decl =
  decl_subRef :: "string option"
  decl_options :: "sopts option"
  decl_required :: bool
  decl_cascade :: bool

datatype stype =
  SType (ctor: string) (opts: sopts) (type0: "decl option")
        (st_required: bool) (st_cascade: bool) (sub_schema: "schema option")
and schema =
  Schema (paths: "(string \<times> stype) list") (subpaths: "(string \<times> stype) list")

text \<open>
  \<open>schema.path(p)\<close> of the object mapper: the schema's own paths first, then its
  other path tables.
\<close>

definition schema_path :: "schema \<Rightarrow> string \<Rightarrow> stype option" where
  "schema_path s p =
     (case map_of (paths s) p of Some t \<Rightarrow> Some t | None \<Rightarrow> map_of (subpaths s) p)"

text \<open>
  A registered reference: \<open>{ modelName, path, schemaType }\<close>. The \<open>schemaType\<close> is a schema
  type or, for an array of references, the declaration of its elements; the checker reads
  \<open>options\<close>, \<open>required\<close> and \<open>cascade\<close> of either.
\<close>

record refType =
  rt_options :: "sopts option"
  rt_required :: bool
  rt_cascade :: bool

record descriptor =
  d_modelName :: string
  d_path :: string
  d_schemaType :: refType

definition of_stype :: "stype \<Rightarrow> refType" where
  "of_stype t = \<lparr>rt_options = Some (opts t), rt_required = st_required t, rt_cascade = st_cascade t\<rparr>"

definition of_decl :: "decl \<Rightarrow> refType" where
  "of_decl d = \<lparr>rt_options = decl_options d, rt_required = decl_required d, rt_cascade = decl_cascade d\<rparr>"

section \<open>Paths and query builders\<close>

text \<open>\<open>s.split('.')\<close>: never empty; an empty string gives one empty segment.\<close>

fun split_dot :: "string \<Rightarrow> string list" where
  "split_dot [] = [] # []"
| "split_dot (c # cs) =
     (if c = CHR ''.'' then [] # split_dot cs
      else (case split_dot cs of [] \<Rightarrow> [c] # [] | w # ws \<Rightarrow> (c # w) # ws))"

fun join_dot :: "string list \<Rightarrow> string" where
  "join_dot [] = []"
| "join_dot [w] = w"
| "join_dot (w # ws) = w @ ''.'' @ join_dot ws"

definition getRootRef :: "string \<Rightarrow> string" where
  "getRootRef s = (case split_dot s of [] \<Rightarrow> [] | w # _ \<Rightarrow> w)"

text \<open>\<open>d._id || d\<close> for an array element: an ObjectId is its own \<open>_id\<close>.\<close>

fun prop_id :: "elem \<Rightarrow> scalar option" where
  "prop_id (SubDoc i _) = Some (Oid i)"
| "prop_id (Prim (Oid i)) = Some (Oid i)"
| "prop_id (Prim _) = None"

fun id_or_self :: "elem \<Rightarrow> scalar" where
  "id_or_self (SubDoc i _) = Oid i"
| "id_or_self (Prim s) = s"

definition getReferencedValues :: "string \<Rightarrow> doc \<Rightarrow> error + scalar list" where
  "getReferencedValues pathSubRef referencedDocument =
     (case get referencedDocument pathSubRef of
        JArr es \<Rightarrow> Inr (map id_or_self es)
      | _ \<Rightarrow> Inl TypeError)"

definition getFindQueryObjectFor ::
  "string \<Rightarrow> string \<Rightarrow> scalar list \<Rightarrow> jsval \<Rightarrow> findQuery" where
  "getFindQueryObjectFor modelRef pathRef referencedValues boundRefValue =
     (if truthy boundRefValue then ById boundRefValue else PathIn pathRef referencedValues)"

text \<open>
  \<open>mongoose.model(name)\<close> over the table of compiled models: an unknown name raises.
\<close>

type_synonym models = "(string \<times> schema) list"

definition mongoose_model :: "models \<Rightarrow> string \<Rightarrow> error + schema" where
  "mongoose_model ms name =
     (case map_of ms name of None \<Rightarrow> Inl MissingSchemaError | Some s \<Rightarrow> Inr s)"

text \<open>
  The first loop of \<open>getUpdateQueryObjectFor\<close>: for every segment but the last, whether
  the schema type at that prefix is a document array, and the index of the last such
  segment (\<open>lastDocumentArray\<close>, \<open>None\<close> for \<open>null\<close>).
\<close>

definition info_step ::
  "schema \<Rightarrow> string list \<Rightarrow> nat \<Rightarrow> nat option \<times> bool list \<Rightarrow> nat option \<times> bool list" where
  "info_step sch segs i acc =
     (case acc of (lastDocumentArray, info) \<Rightarrow>
        (case schema_path sch (join_dot (take (Suc i) segs)) of
           Some t \<Rightarrow>
             if ctor t = ''DocumentArrayPath''
             then (Some i, info @ [True])
             else (lastDocumentArray, info @ [False])
         | None \<Rightarrow> (lastDocumentArray, info @ [False])))"

text \<open>
  The second loop: the update path with its positional tokens, and the path of the
  array filter's condition (the segments after the last document array).
\<close>

definition path_step ::
  "string list \<Rightarrow> bool list \<Rightarrow> nat option \<Rightarrow> nat \<Rightarrow> string \<times> string \<Rightarrow> string \<times> string" where
  "path_step segs info lastDocumentArray i acc =
     (case acc of (updatePath, arrayFilterConditionPath) \<Rightarrow>
        (updatePath @ segs ! i @ ''.'' @
           (if info ! i
            then (if Some i = lastDocumentArray then ''$[j].'' else ''$[].'')
            else []),
         (case lastDocumentArray of
            None \<Rightarrow> arrayFilterConditionPath
          | Some l \<Rightarrow>
              if l < i then arrayFilterConditionPath @ segs ! i @ ''.''
              else arrayFilterConditionPath)))"

definition getUpdateQueryObjectFor ::
  "models \<Rightarrow> string \<Rightarrow> string \<Rightarrow> scalar list \<Rightarrow> error + updateQuery \<times> arrayFilters option" where
  "getUpdateQueryObjectFor ms modelRef pathRef referencedValues =
     (let segs = split_dot pathRef in
      case mongoose_model ms modelRef of
        Inl e \<Rightarrow> Inl e
      | Inr sch \<Rightarrow>
          (let fieldRefSchemaType = schema_path sch pathRef;
               (lastDocumentArray, info) =
                  fold (info_step sch segs) [0 ..< length segs - 1] (None, []);
               (updatePath0, cond0) =
                  fold (path_step segs info lastDocumentArray) [0 ..< length info] ([], []);
               updatePath = updatePath0 @ last segs;
               arrayFilterConditionPath = cond0 @ last segs
           in case fieldRefSchemaType of
                None \<Rightarrow> Inl TypeError
              | Some t \<Rightarrow>
                  Inr (if ctor t = ''SchemaArray''
                       then Pull updatePath referencedValues
                       else SetNull updatePath,
                       if lastDocumentArray \<noteq> None
                       then Some (ArrayFilterIn (''j.'' @ arrayFilterConditionPath) referencedValues)
                       else None)))"

section \<open>The three policies\<close>

text \<open>
  An operation on the store takes the database and returns what it threw or returned,
  with the database it left. The delete context is \<open>{ softDelete, _deleted }\<close>; a hard
  delete passes none, and the defaults \<open>softDelete = false\<close>, \<open>_deleted\<close> undefined apply.
  The store itself does not fail, and \<open>mongoose.model(modelRef)\<close> gives a model for every
  name a policy is called with: its collection is read through the database, which has
  one for every name. Only the builder of the update reads the schema of the model, and
  there the lookup can fail.
\<close>

type_synonym 'r eff = "db \<Rightarrow> (error + 'r) \<times> db"

record deleteContext =
  softDelete :: bool
  deleted :: bool

definition ctx_softDelete :: "deleteContext option \<Rightarrow> bool" where
  "ctx_softDelete c = (case c of None \<Rightarrow> False | Some x \<Rightarrow> softDelete x)"

definition ctx_deleted :: "deleteContext option \<Rightarrow> bool" where
  "ctx_deleted c = (case c of None \<Rightarrow> False | Some x \<Rightarrow> deleted x)"

text \<open>
  The two document methods a cascade calls, \<open>doc.deleteOne()\<close> and
  \<open>doc.softDelete(flag)\<close>, belong to the object mapper and to the soft-delete
  extension; the policies take them as parameters.
\<close>

record docOps =
  op_deleteOne :: "doc \<Rightarrow> unit eff"
  op_softDelete :: "doc \<Rightarrow> bool \<Rightarrow> unit eff"

text \<open>
  \<open>await Promise.all(tasks)\<close>: every task is started whatever the others do, and the
  whole fails if one fails. The tasks are run here to completion in the order of the
  list, which is one of the schedules the event loop admits; the error reported is that
  of the first task of the list that fails.
\<close>

fun promise_all :: "unit eff list \<Rightarrow> unit eff" where
  "promise_all [] db = (Inr (), db)"
| "promise_all (t # ts) db =
     (case t db of (r, db1) \<Rightarrow>
        (case promise_all ts db1 of (rs, db2) \<Rightarrow>
           ((case r of Inl e \<Rightarrow> Inl e | Inr _ \<Rightarrow> rs), db2)))"

definition onDeleteSetNull ::
  "mongo \<Rightarrow> models \<Rightarrow> string \<Rightarrow> string \<Rightarrow> string \<Rightarrow> string \<Rightarrow> scalar list \<Rightarrow> jsval \<Rightarrow>
   deleteContext option \<Rightarrow> unit eff" where
  "onDeleteSetNull M ms modelRef pathRef modelSubRef pathSubRef referencedValues boundRefValue c db =
     (if \<not> ctx_softDelete c
      then (case getUpdateQueryObjectFor ms modelRef pathRef referencedValues of
              Inl e \<Rightarrow> (Inl e, db)
            | Inr (u, af) \<Rightarrow>
                (Inr (),
                 updateMany M db modelRef
                   (getFindQueryObjectFor modelRef pathRef referencedValues boundRefValue) u af))
      else (Inr (), db))"

definition onDeleteCascade ::
  "mongo \<Rightarrow> docOps \<Rightarrow> string \<Rightarrow> string \<Rightarrow> string \<Rightarrow> string \<Rightarrow> scalar list \<Rightarrow> jsval \<Rightarrow>
   deleteContext option \<Rightarrow> unit eff" where
  "onDeleteCascade M ops modelRef pathRef modelSubRef pathSubRef referencedValues boundRefValue c db =
     (let queryObject = getFindQueryObjectFor modelRef pathRef referencedValues boundRefValue;
          documents = find_docs M db modelRef queryObject
      in if ctx_softDelete c
         then promise_all (map (\<lambda>d. op_softDelete ops d (ctx_deleted c)) documents) db
         else promise_all (map (\<lambda>d. op_deleteOne ops d) documents) db)"

definition onDeleteBlock ::
  "mongo \<Rightarrow> string \<Rightarrow> string \<Rightarrow> string \<Rightarrow> string \<Rightarrow> scalar list \<Rightarrow> jsval \<Rightarrow>
   deleteContext option \<Rightarrow> unit eff" where
  "onDeleteBlock M modelRef pathRef modelSubRef pathSubRef referencedValues boundRefValue c db =
     (if \<not> ctx_softDelete c \<or> ctx_deleted c
      then (case findOne M db modelRef
                   (getFindQueryObjectFor modelRef pathRef referencedValues boundRefValue) of
              Some constrainedDoc \<Rightarrow>
                (Inl (SubRefConstraintError modelSubRef pathSubRef modelRef pathRef
                        (doc_id constrainedDoc)), db)
            | None \<Rightarrow> (Inr (), db))
      else (Inr (), db))"

definition onDeleteConditions ::
  "mongo \<Rightarrow> models \<Rightarrow> docOps \<Rightarrow> refType \<Rightarrow> string \<Rightarrow> string \<Rightarrow> string \<Rightarrow> string \<Rightarrow>
   scalar list \<Rightarrow> jsval \<Rightarrow> deleteContext option \<Rightarrow> unit eff" where
  "onDeleteConditions M ms ops st modelRef pathRef modelSubRef pathSubRef referencedValues
       boundRefValue c =
     (if rt_required st
      then (if rt_cascade st
            then onDeleteCascade M ops modelRef pathRef modelSubRef pathSubRef referencedValues
                   boundRefValue c
            else onDeleteBlock M modelRef pathRef modelSubRef pathSubRef referencedValues
                   boundRefValue c)
      else onDeleteSetNull M ms modelRef pathRef modelSubRef pathSubRef referencedValues
             boundRefValue c)"

section \<open>Registration\<close>

text \<open>
  The state registration works on: the module's table \<open>refs\<close>, the models the object
  mapper has compiled, the validators attached to the paths of target schemas (each with
  what its closure holds: the referencing model and path and the registered schema type)
  and the models whose schema carries the delete hooks.
\<close>

record attached =
  a_subRefModel :: string
  a_pathSubRef :: string
  a_modelName :: string
  a_path :: string
  a_schemaType :: refType

record reg =
  refs :: "string \<Rightarrow> descriptor list option"
  compiled :: models
  validators :: "attached list"
  hooked :: "string list"

text \<open>A property key: \<open>refs[undefined]\<close> reads the key \<open>undefined\<close>.\<close>

definition key_of :: "string option \<Rightarrow> string" where
  "key_of k = (case k of None \<Rightarrow> ''undefined'' | Some s \<Rightarrow> s)"

text \<open>\<open>refs[k] || []\<close>.\<close>

definition refs_or_empty :: "reg \<Rightarrow> string \<Rightarrow> descriptor list" where
  "refs_or_empty rs k = (case refs rs k of None \<Rightarrow> [] | Some ds \<Rightarrow> ds)"

text \<open>A declared \<open>subRef\<close> that the conditional takes: a string that is not empty.\<close>

definition truthy_str :: "string option \<Rightarrow> bool" where
  "truthy_str k = (case k of None \<Rightarrow> False | Some s \<Rightarrow> s \<noteq> [])"

definition setValidator :: "string \<Rightarrow> string \<Rightarrow> refType \<Rightarrow> reg \<Rightarrow> (error + unit) \<times> reg" where
  "setValidator mn pathRef st rs =
     (case rt_options st of
        None \<Rightarrow> (Inl TypeError, rs)
      | Some so \<Rightarrow>
          (case subRef so of
             None \<Rightarrow> (Inl TypeError, rs)
           | Some sr \<Rightarrow>
               (let subRefModel = getRootRef sr;
                    pathSubRef = drop (length subRefModel + 1) sr
                in case mongoose_model (compiled rs) subRefModel of
                     Inl e \<Rightarrow> (Inl e, rs)
                   | Inr sch \<Rightarrow>
                       (case schema_path sch pathSubRef of
                          None \<Rightarrow> (Inl TypeError, rs)
                        | Some t \<Rightarrow>
                            (Inr (),
                             rs\<lparr>validators := validators rs @
                                  [\<lparr>a_subRefModel = subRefModel, a_pathSubRef = pathSubRef,
                                    a_modelName = mn, a_path = pathRef,
                                    a_schemaType = st\<rparr>]\<rparr>)))))"

text \<open>
  \<open>eachPath\<close> of \<open>plugin\<close>, and the iteration \<open>schema.eachPath\<close> that calls it on every path
  of a schema in turn, under the prefix of the enclosing path; an exception ends the
  iteration and leaves what was written before it.
\<close>

fun eachPath :: "string \<Rightarrow> string \<Rightarrow> stype \<Rightarrow> reg \<Rightarrow> (error + unit) \<times> reg"
and eachPaths :: "string \<Rightarrow> string \<Rightarrow> (string \<times> stype) list \<Rightarrow> reg \<Rightarrow> (error + unit) \<times> reg"
where
  "eachPath mn p (SType c so t0 rq ca ss) rs =
     (if c = ''SchemaArray'' \<and> t0 = None then (Inl TypeError, rs)
      else if c = ''SchemaArray'' \<and> truthy_str (decl_subRef (the t0)) then
        (let d = the t0;
             rs1 = rs\<lparr>refs := (refs rs)(getRootRef (key_of (decl_subRef d)) \<mapsto>
                      refs_or_empty rs (key_of (subRef so)) @
                        [\<lparr>d_modelName = mn, d_path = p, d_schemaType = of_decl d\<rparr>])\<rparr>
         in setValidator mn p (of_decl d) rs1)
      else
        (case ss of
           Some (Schema ps sps) \<Rightarrow> eachPaths mn (p @ ''.'') ps rs
         | None \<Rightarrow>
             if truthy_str (subRef so) then
               (let st = of_stype (SType c so t0 rq ca ss);
                    rs1 = rs\<lparr>refs := (refs rs)(getRootRef (key_of (subRef so)) \<mapsto>
                             refs_or_empty rs (key_of (subRef so)) @
                               [\<lparr>d_modelName = mn, d_path = p, d_schemaType = st\<rparr>])\<rparr>
                in setValidator mn p st rs1)
             else (Inr (), rs)))"
| "eachPaths mn prefix [] rs = (Inr (), rs)"
| "eachPaths mn prefix (pt # rest) rs =
     (case eachPath mn (prefix @ fst pt) (snd pt) rs of
        (Inl e, rs1) \<Rightarrow> (Inl e, rs1)
      | (Inr u, rs1) \<Rightarrow> eachPaths mn prefix rest rs1)"

text \<open>
  \<open>plugin(modelName, schema)\<close>: the model's own entry of \<open>refs\<close> if it has none, the walk
  over the schema, then the hooks. \<open>consistentModel\<close> compiles the model after it; the
  object mapper refuses to compile a name twice.
\<close>

definition plugin :: "string \<Rightarrow> schema \<Rightarrow> reg \<Rightarrow> (error + unit) \<times> reg" where
  "plugin mn sch rs =
     (let rs1 = (if refs rs mn = None then rs\<lparr>refs := (refs rs)(mn \<mapsto> [])\<rparr> else rs)
      in case eachPaths mn [] (paths sch) rs1 of
           (Inl e, rs2) \<Rightarrow> (Inl e, rs2)
         | (Inr u, rs2) \<Rightarrow> (Inr (), rs2\<lparr>hooked := mn # hooked rs2\<rparr>))"

definition consistentModel :: "string \<Rightarrow> schema \<Rightarrow> reg \<Rightarrow> (error + unit) \<times> reg" where
  "consistentModel mn sch rs =
     (case plugin mn sch rs of
        (Inl e, rs1) \<Rightarrow> (Inl e, rs1)
      | (Inr u, rs1) \<Rightarrow>
          (if map_of (compiled rs1) mn \<noteq> None then (Inl OverwriteModelError, rs1)
           else (Inr (), rs1\<lparr>compiled := (mn, sch) # compiled rs1\<rparr>)))"

definition empty_reg :: reg where
  "empty_reg = \<lparr>refs = (\<lambda>k. None), compiled = [], validators = [], hooked = []\<rparr>"

section \<open>Deleting a root document\<close>

text \<open>
  \<open>schemaType.options.boundTo ? document.get(schemaType.options.boundTo) : null\<close>.
\<close>

definition boundRefValueOf :: "sopts \<Rightarrow> doc \<Rightarrow> jsval" where
  "boundRefValueOf so document =
     (case boundTo so of
        None \<Rightarrow> JNull
      | Some b \<Rightarrow> if b \<noteq> [] then get document b else JNull)"

text \<open>
  One turn of the loop of \<open>onDelete\<close>, for one descriptor of \<open>refs[modelName]\<close>, and the
  loop, which awaits each turn before the next and ends at the first exception.
\<close>

definition onDelete_one ::
  "mongo \<Rightarrow> models \<Rightarrow> docOps \<Rightarrow> string \<Rightarrow> doc \<Rightarrow> deleteContext option \<Rightarrow> descriptor \<Rightarrow> unit eff" where
  "onDelete_one M ms ops mn document softDeleteOptions r db =
     (case rt_options (d_schemaType r) of
        None \<Rightarrow> (Inl TypeError, db)
      | Some so \<Rightarrow>
          (case subRef so of
             None \<Rightarrow> (Inl TypeError, db)
           | Some sr \<Rightarrow>
               (let pathSubRef = drop (length mn + 1) sr;
                    boundRefValue = boundRefValueOf so document
                in case getReferencedValues pathSubRef document of
                     Inl e \<Rightarrow> (Inl e, db)
                   | Inr vs \<Rightarrow>
                       onDeleteConditions M ms ops (d_schemaType r) (d_modelName r) (d_path r)
                         mn pathSubRef vs boundRefValue softDeleteOptions db)))"

fun onDelete_loop ::
  "mongo \<Rightarrow> models \<Rightarrow> docOps \<Rightarrow> string \<Rightarrow> doc \<Rightarrow> deleteContext option \<Rightarrow> descriptor list \<Rightarrow>
   unit eff" where
  "onDelete_loop M ms ops mn document c [] db = (Inr (), db)"
| "onDelete_loop M ms ops mn document c (r # rest) db =
     (case onDelete_one M ms ops mn document c r db of
        (Inl e, db1) \<Rightarrow> (Inl e, db1)
      | (Inr u, db1) \<Rightarrow> onDelete_loop M ms ops mn document c rest db1)"

definition onDelete ::
  "reg \<Rightarrow> mongo \<Rightarrow> docOps \<Rightarrow> string \<Rightarrow> doc \<Rightarrow> deleteContext option \<Rightarrow> unit eff" where
  "onDelete rs M ops mn document softDeleteOptions db =
     (case refs rs mn of
        None \<Rightarrow> (Inl TypeError, db)
      | Some ds \<Rightarrow> onDelete_loop M (compiled rs) ops mn document softDeleteOptions ds db)"

text \<open>
  The hook the plugin gives to the soft-delete extension: enforcement in the soft-delete
  context with the document's new flag and, when a block stops it, the flag of the
  document in memory set back to false before the error goes on.
\<close>

definition preSoftDelete_hook ::
  "reg \<Rightarrow> mongo \<Rightarrow> docOps \<Rightarrow> doc \<Rightarrow> db \<Rightarrow> (error + unit) \<times> doc \<times> db" where
  "preSoftDelete_hook rs M ops document db =
     (case onDelete rs M ops (doc_model document) document
             (Some \<lparr>softDelete = True, deleted = doc_deleted document\<rparr>) db of
        (Inl e, db1) \<Rightarrow>
          (Inl e,
           (case e of
              SubRefConstraintError a b c d i \<Rightarrow> document\<lparr>doc_deleted := False\<rparr>
            | _ \<Rightarrow> document),
           db1)
      | (Inr u, db1) \<Rightarrow> (Inr (), document, db1))"

text \<open>
  The document methods of the collaborators, as far as a cascade depends on them.
  \<open>doc.deleteOne()\<close> of the object mapper runs the \<open>deleteOne\<close> hook of the document's
  model, if the plugin installed one, and then removes the document from its collection.
  \<open>doc.softDelete(flag)\<close> of the soft-delete extension sets the flag on the document,
  runs the hook above (the extension is taken to be applied to every schema that
  carries the plugin) and then stores the flag. A hook may call the methods again on
  other documents; the nesting is bounded by a counter, and \<open>FuelExhausted\<close> is the
  result of a nesting deeper than it.
\<close>

definition remove_doc :: "doc \<Rightarrow> db \<Rightarrow> db" where
  "remove_doc d db = db(doc_model d := filter (\<lambda>x. doc_id x \<noteq> doc_id d) (db (doc_model d)))"

definition store_deleted :: "doc \<Rightarrow> bool \<Rightarrow> db \<Rightarrow> db" where
  "store_deleted d flag db =
     db(doc_model d :=
          map (\<lambda>x. if doc_id x = doc_id d then x\<lparr>doc_deleted := flag\<rparr> else x) (db (doc_model d)))"

primrec doc_ops :: "reg \<Rightarrow> mongo \<Rightarrow> nat \<Rightarrow> docOps" where
  "doc_ops rs M 0 =
     \<lparr>op_deleteOne = (\<lambda>d db. (Inl FuelExhausted, db)),
      op_softDelete = (\<lambda>d flag db. (Inl FuelExhausted, db))\<rparr>"
| "doc_ops rs M (Suc n) =
     \<lparr>op_deleteOne = (\<lambda>d db.
        if doc_model d \<in> set (hooked rs)
        then (case onDelete rs M (doc_ops rs M n) (doc_model d) d None db of
                (Inl e, db1) \<Rightarrow> (Inl e, db1)
              | (Inr u, db1) \<Rightarrow> (Inr (), remove_doc d db1))
        else (Inr (), remove_doc d db)),
      op_softDelete = (\<lambda>d flag db.
        if doc_model d \<in> set (hooked rs)
        then (case preSoftDelete_hook rs M (doc_ops rs M n) (d\<lparr>doc_deleted := flag\<rparr>) db of
                (Inl e, d1, db1) \<Rightarrow> (Inl e, db1)
              | (Inr u, d1, db1) \<Rightarrow> (Inr (), store_deleted d1 (doc_deleted d1) db1))
        else (Inr (), store_deleted d flag db))\<rparr>"

section \<open>The validator and the updates after a save\<close>

text \<open>
  The comparison the validator makes between an old element \<open>o\<close> and a new element \<open>n\<close>:
  \<open>o._id ? o._id.equals(n._id) : (o.equals ? o.equals(n) : o === n)\<close>. An ObjectId equals
  another value if that value is the same ObjectId; sub-documents and ObjectIds have an
  \<open>equals\<close> method, strings, numbers and booleans have none.
\<close>

definition oid_equals :: "scalar \<Rightarrow> scalar option \<Rightarrow> bool" where
  "oid_equals i other = (other = Some i)"

fun has_equals :: "elem \<Rightarrow> bool" where
  "has_equals (SubDoc _ _) = True"
| "has_equals (Prim (Oid _)) = True"
| "has_equals (Prim _) = False"

definition equals_method :: "elem \<Rightarrow> elem \<Rightarrow> bool" where
  "equals_method o' n = (case prop_id o' of None \<Rightarrow> False | Some i \<Rightarrow> oid_equals i (prop_id n))"

fun strict_equal :: "elem \<Rightarrow> elem \<Rightarrow> bool" where
  "strict_equal (Prim (Str a)) (Prim (Str b)) = (a = b)"
| "strict_equal (Prim (Num a)) (Prim (Num b)) = (a = b)"
| "strict_equal (Prim (Bool a)) (Prim (Bool b)) = (a = b)"
| "strict_equal _ _ = False"

definition same_value :: "elem \<Rightarrow> elem \<Rightarrow> bool" where
  "same_value o' n =
     (case prop_id o' of
        Some i \<Rightarrow> oid_equals i (prop_id n)
      | None \<Rightarrow> if has_equals o' then equals_method o' n else strict_equal o' n)"

text \<open>
  \<open>oldValues.filter((o) => !newValues.some(...))\<close>. A value that is not an array has no
  \<open>filter\<close> or \<open>some\<close>; \<open>some\<close> is only reached when there is an old element.
\<close>

definition deletedValuesOf :: "jsval \<Rightarrow> jsval \<Rightarrow> error + elem list" where
  "deletedValuesOf oldValues newValues =
     (case oldValues of
        JArr olds \<Rightarrow>
          (if olds = [] then Inr []
           else (case newValues of
                   JArr news \<Rightarrow> Inr (filter (\<lambda>o'. \<not> list_ex (same_value o') news) olds)
                 | _ \<Rightarrow> Inl TypeError))
      | _ \<Rightarrow> Inl TypeError)"

text \<open>
  The removed-value set in the words of the specification: the elements of the prior
  value that are absent from the new value, where a sub-document is compared by the
  equality of ids and a scalar by its own \<open>equals\<close> method when it has one, else by strict
  equality.
\<close>

fun same_element :: "elem \<Rightarrow> elem \<Rightarrow> bool" where
  "same_element (SubDoc i f) n = oid_equals (Oid i) (prop_id n)"
| "same_element (Prim s) n =
     (if has_equals (Prim s) then equals_method (Prim s) n else strict_equal (Prim s) n)"

definition removedValueSet :: "elem list \<Rightarrow> elem list \<Rightarrow> elem list" where
  "removedValueSet olds news = filter (\<lambda>o'. \<forall>n \<in> set news. \<not> same_element o' n) olds"

text \<open>
  A document in memory: the document, and in \<open>$locals\<close> the old document (of the
  old-values plugin), the tasks queued for after the save, the flag
  \<open>subRefUpdatedAfterSave\<close> and the resolver and rejecter. A task is the closure
  \<open>remover\<close>: it holds the validator's closure and the deleted values. A resolver is a
  chain of closures, each calling the one before it and then the \<open>resolve\<close> of its own
  promise: it is the list of these promises, in the order they are settled. The promises
  that \<open>subRefsUpdates\<close> returned are kept with the document, each pending, resolved or
  rejected.
\<close>

datatype pstate = Pending | Resolved | Rejected error

record task =
  t_closure :: attached
  t_deletedValues :: "elem list"

record inst =
  self :: doc
  old :: "doc option"
  subRefUpdateAfterSave :: "task list option"
  subRefUpdatedAfterSave :: "bool option"
  subRefUpdateAfterSaveResolver :: "nat list option"
  subRefUpdateAfterSaveRejecter :: "nat list option"
  promises :: "pstate list"

text \<open>\<open>remover\<close>: the bound value is read from the document when the closure runs.\<close>

definition remover :: "mongo \<Rightarrow> models \<Rightarrow> docOps \<Rightarrow> task \<Rightarrow> doc \<Rightarrow> unit eff" where
  "remover M ms ops t this db =
     (let a = t_closure t in
      case rt_options (a_schemaType a) of
        None \<Rightarrow> (Inl TypeError, db)
      | Some so \<Rightarrow>
          onDeleteConditions M ms ops (a_schemaType a) (a_modelName a) (a_path a)
            (a_subRefModel a) (a_pathSubRef a) (map id_or_self (t_deletedValues t))
            (boundRefValueOf so this) None db)"

text \<open>\<open>this.$locals.old ? this.$locals.old.get(pathSubRef) : []\<close>.\<close>

definition oldValuesOf :: "inst \<Rightarrow> string \<Rightarrow> jsval" where
  "oldValuesOf this pathSubRef =
     (case old this of None \<Rightarrow> JArr [] | Some od \<Rightarrow> get od pathSubRef)"

text \<open>
  The validator, called with the document in memory as \<open>this\<close> and the new value of the
  field. It returns what it threw or returned, the document in memory and the database.
\<close>

definition validator ::
  "mongo \<Rightarrow> models \<Rightarrow> docOps \<Rightarrow> attached \<Rightarrow> inst \<Rightarrow> jsval \<Rightarrow> db \<Rightarrow> (error + bool) \<times> inst \<times> db" where
  "validator M ms ops a this newValues db =
     (let oldValues = oldValuesOf this (a_pathSubRef a) in
      case deletedValuesOf oldValues newValues of
        Inl e \<Rightarrow> (Inl e, this, db)
      | Inr deletedValues \<Rightarrow>
          if deletedValues \<noteq> [] then
            (let t = \<lparr>t_closure = a, t_deletedValues = deletedValues\<rparr> in
             if rt_required (a_schemaType a) \<and> \<not> rt_cascade (a_schemaType a) then
               (case remover M ms ops t (self this) db of
                  (Inl (SubRefConstraintError modelSubRef pathSubRef modelRef pathRef i), db1) \<Rightarrow>
                    (Inl (ValidatorError modelSubRef pathSubRef modelRef pathRef i),
                     this\<lparr>self := set_path (self this) (a_pathSubRef a) oldValues\<rparr>, db1)
                | (Inl e, db1) \<Rightarrow> (Inl e, this, db1)
                | (Inr u, db1) \<Rightarrow> (Inr True, this, db1))
             else
               (Inr True,
                this\<lparr>subRefUpdateAfterSave :=
                       Some ((case subRefUpdateAfterSave this of None \<Rightarrow> [] | Some ts \<Rightarrow> ts) @ [t])\<rparr>,
                db))
          else (Inr True, this, db))"

text \<open>
  Settling a promise: \<open>resolve\<close> and \<open>reject\<close> act on a pending promise only. Calling a
  resolver or a rejecter settles the promises of its chain in order.
\<close>

definition settle :: "pstate \<Rightarrow> nat \<Rightarrow> pstate list \<Rightarrow> pstate list" where
  "settle st p ps = (if p < length ps \<and> ps ! p = Pending then ps[p := st] else ps)"

definition call_chain :: "pstate \<Rightarrow> nat list option \<Rightarrow> pstate list \<Rightarrow> pstate list" where
  "call_chain st ch ps = (case ch of None \<Rightarrow> ps | Some c \<Rightarrow> fold (settle st) c ps)"

text \<open>
  The \<open>post('save')\<close> hook, in its two halves: up to the \<open>await\<close> (the flag is set to false
  and the tasks are started), and from the result of the batch on. Between the two the
  batch is in flight.
\<close>

definition post_save_start :: "inst \<Rightarrow> inst" where
  "post_save_start this = this\<lparr>subRefUpdatedAfterSave := Some False\<rparr>"

definition post_save_finish :: "error + unit \<Rightarrow> inst \<Rightarrow> (error + unit) \<times> inst" where
  "post_save_finish r this =
     (case r of
        Inr u \<Rightarrow>
          (Inr (),
           this\<lparr>subRefUpdateAfterSave := None,
                promises := call_chain Resolved (subRefUpdateAfterSaveResolver this) (promises this),
                subRefUpdatedAfterSave := Some True\<rparr>)
      | Inl e \<Rightarrow>
          (Inl e,
           this\<lparr>subRefUpdateAfterSave := None,
                promises := call_chain (Rejected e) (subRefUpdateAfterSaveRejecter this) (promises this),
                subRefUpdatedAfterSave := Some True\<rparr>))"

definition post_save ::
  "mongo \<Rightarrow> models \<Rightarrow> docOps \<Rightarrow> inst \<Rightarrow> db \<Rightarrow> (error + unit) \<times> inst \<times> db" where
  "post_save M ms ops this db =
     (case subRefUpdateAfterSave this of
        None \<Rightarrow> (Inr (), this, db)
      | Some ts \<Rightarrow>
          (let this1 = post_save_start this in
           case promise_all (map (\<lambda>t. remover M ms ops t (self this1)) ts) db of
             (r, db1) \<Rightarrow>
               (case post_save_finish r this1 of (r1, this2) \<Rightarrow> (r1, this2, db1))))"

text \<open>
  \<open>subRefsUpdates\<close>: a new promise, resolved at once if the flag is true; the resolver and
  the rejecter of the document are replaced by closures that call the previous ones and
  then settle the new promise. It returns the promise.
\<close>

definition subRefsUpdates :: "inst \<Rightarrow> nat \<times> inst" where
  "subRefsUpdates this =
     (let p = length (promises this);
          ps0 = promises this @ [Pending];
          ps1 = (if subRefUpdatedAfterSave this = Some True then settle Resolved p ps0 else ps0);
          previousResolver = subRefUpdateAfterSaveResolver this;
          previousRejecter = subRefUpdateAfterSaveRejecter this
      in (p,
          this\<lparr>promises := ps1,
               subRefUpdateAfterSaveResolver :=
                 Some ((case previousResolver of None \<Rightarrow> [] | Some c \<Rightarrow> c) @ [p]),
               subRefUpdateAfterSaveRejecter :=
                 Some ((case previousRejecter of None \<Rightarrow> [] | Some c \<Rightarrow> c) @ [p])\<rparr>))"

definition new_inst :: "doc \<Rightarrow> inst" where
  "new_inst d =
     \<lparr>self = d, old = None, subRefUpdateAfterSave = None, subRefUpdatedAfterSave = None,
      subRefUpdateAfterSaveResolver = None, subRefUpdateAfterSaveRejecter = None,
      promises = []\<rparr>"

section \<open>A small store for the examples\<close>

text \<open>
  One store to run the examples on: \<open>_id\<close> is matched by equality, \<open>$in\<close> by the value of a
  field or by any scalar element of an array field, \<open>$set\<close> nulls the field and \<open>$pull\<close>
  drops the listed scalars from an array field.
\<close>

fun scalar_in :: "scalar list \<Rightarrow> elem \<Rightarrow> bool" where
  "scalar_in vs (Prim s) = (s \<in> set vs)"
| "scalar_in vs (SubDoc _ _) = False"

fun example_matches :: "findQuery \<Rightarrow> doc \<Rightarrow> bool" where
  "example_matches (ById v) d = (doc_id d = v)"
| "example_matches (PathIn p vs) d =
     (case get d p of
        JScalar s \<Rightarrow> s \<in> set vs
      | JArr es \<Rightarrow> list_ex (scalar_in vs) es
      | _ \<Rightarrow> False)"

fun example_update :: "updateQuery \<Rightarrow> arrayFilters option \<Rightarrow> doc \<Rightarrow> doc" where
  "example_update (SetNull p) af d = set_path d p JNull"
| "example_update (Pull p vs) af d =
     (case get d p of
        JArr es \<Rightarrow> set_path d p (JArr (filter (\<lambda>e. \<not> scalar_in vs e) es))
      | _ \<Rightarrow> d)"

definition example_store :: mongo where
  "example_store = \<lparr>query_matches = example_matches, applyUpdate = example_update\<rparr>"

definition no_ops :: docOps where
  "no_ops = \<lparr>op_deleteOne = (\<lambda>d db. (Inr (), db)), op_softDelete = (\<lambda>d f db. (Inr (), db))\<rparr>"

definition message :: "nat \<Rightarrow> nat \<Rightarrow> doc" where
  "message i c =
     \<lparr>doc_id = JScalar (Oid i), doc_model = ''Message'',
      doc_fields = [(''contact'', JScalar (Oid c))], doc_deleted = False\<rparr>"

definition messages_db :: db where
  "messages_db = (\<lambda>m. [])(''Message'' := [message 10 2, message 11 1, message 12 1])"

definition block_type :: refType where
  "block_type =
     \<lparr>rt_options = Some \<lparr>subRef = Some ''Person.contacts'', boundTo = None\<rparr>,
      rt_required = True, rt_cascade = False\<rparr>"

definition pinned_opts :: sopts where
  "pinned_opts = \<lparr>subRef = Some ''Person.contacts'', boundTo = Some ''pinned''\<rparr>"

definition person :: "jsval \<Rightarrow> doc" where
  "person pin =
     \<lparr>doc_id = JScalar (Oid 1), doc_model = ''Person'',
      doc_fields = [(''contacts'', JArr [SubDoc 1 [], SubDoc 2 []]), (''pinned'', pin)],
      doc_deleted = False\<rparr>"

definition numbered_db :: db where
  "numbered_db =
     (\<lambda>m. [])(''Message'' :=
        [\<lparr>doc_id = JScalar (Num 0), doc_model = ''Message'',
          doc_fields = [(''contact'', JScalar (Oid 9))], doc_deleted = False\<rparr>])"

definition setnull_type :: refType where
  "setnull_type =
     \<lparr>rt_options = Some \<lparr>subRef = Some ''Person.contacts'', boundTo = None\<rparr>,
      rt_required = False, rt_cascade = False\<rparr>"

definition cascade_type :: refType where
  "cascade_type =
     \<lparr>rt_options = Some \<lparr>subRef = Some ''Person.contacts'', boundTo = None\<rparr>,
      rt_required = True, rt_cascade = True\<rparr>"

definition plain_type :: "string \<Rightarrow> stype" where
  "plain_type c =
     SType c \<lparr>subRef = None, boundTo = None\<rparr> None False False None"

definition ref_field :: "bool \<Rightarrow> bool \<Rightarrow> stype" where
  "ref_field rq ca =
     SType ''ObjectId'' \<lparr>subRef = Some ''Person.contacts'', boundTo = None\<rparr> None rq ca None"

definition message_schema :: "bool \<Rightarrow> bool \<Rightarrow> schema" where
  "message_schema rq ca =
     Schema [(''contact'', ref_field rq ca), (''content'', plain_type ''SchemaString'')] []"

definition person_schema :: schema where
  "person_schema =
     Schema [(''name'', plain_type ''SchemaString''),
             (''contacts'', plain_type ''DocumentArrayPath'')] []"

text \<open>
  A referencing model whose reference lies in the sub-documents of an array,
  \<open>items: [{ contact: { subRef: 'Person.contacts' } }]\<close>, and which has an array of scalars
  under the path \<open>tags\<close>.
\<close>

definition order_schema :: schema where
  "order_schema =
     Schema [(''items'',
              SType ''DocumentArrayPath'' \<lparr>subRef = None, boundTo = None\<rparr> None False False
                (Some (Schema [(''contact'', ref_field False False)] []))),
             (''tags'', plain_type ''SchemaArray'')]
            [(''items.contact'', ref_field False False)]"

text \<open>
  A chain of references for the examples: a message references a contact of a person, a
  receipt references a part of a message, both required and cascading. The registry is
  what registering the three models in this order leaves.
\<close>

definition chain_person_schema :: schema where
  "chain_person_schema =
     Schema [(''name'', plain_type ''SchemaString''),
             (''contacts'',
              SType ''DocumentArrayPath'' \<lparr>subRef = None, boundTo = None\<rparr> None False False
                (Some (Schema [(''email'', plain_type ''SchemaString'')] [])))] []"

definition chain_message_schema :: schema where
  "chain_message_schema =
     Schema [(''contact'', ref_field True True),
             (''parts'',
              SType ''DocumentArrayPath'' \<lparr>subRef = None, boundTo = None\<rparr> None False False
                (Some (Schema [(''label'', plain_type ''SchemaString'')] [])))] []"

definition chain_receipt_schema :: schema where
  "chain_receipt_schema =
     Schema [(''part'',
              SType ''ObjectId'' \<lparr>subRef = Some ''Message.parts'', boundTo = None\<rparr> None
                True True None)] []"

definition chain_reg :: reg where
  "chain_reg =
     snd (consistentModel ''Receipt'' chain_receipt_schema
       (snd (consistentModel ''Message'' chain_message_schema
         (snd (consistentModel ''Person'' chain_person_schema empty_reg)))))"

definition chain_person :: doc where
  "chain_person =
     \<lparr>doc_id = JScalar (Oid 1), doc_model = ''Person'',
      doc_fields = [(''contacts'', JArr [SubDoc 1 [], SubDoc 2 []])], doc_deleted = False\<rparr>"

definition chain_message :: "nat \<Rightarrow> nat \<Rightarrow> nat \<Rightarrow> doc" where
  "chain_message i c p =
     \<lparr>doc_id = JScalar (Oid i), doc_model = ''Message'',
      doc_fields = [(''contact'', JScalar (Oid c)), (''parts'', JArr [SubDoc p []])],
      doc_deleted = False\<rparr>"

definition chain_receipt :: "nat \<Rightarrow> nat \<Rightarrow> doc" where
  "chain_receipt i p =
     \<lparr>doc_id = JScalar (Oid i), doc_model = ''Receipt'',
      doc_fields = [(''part'', JScalar (Oid p))], doc_deleted = False\<rparr>"

definition chain_db :: db where
  "chain_db =
     (\<lambda>m. [])(''Person'' := [chain_person],
              ''Message'' := [chain_message 10 1 100, chain_message 11 5 110],
              ''Receipt'' := [chain_receipt 20 100, chain_receipt 21 110])"

text \<open>
  A person in memory, for the examples: the old document has the contacts 1 and 2, and
  the validator attached for the reference \<open>Message.contact\<close> is called when contact 1 is
  removed.
\<close>

definition person_with :: "elem list \<Rightarrow> jsval \<Rightarrow> doc" where
  "person_with cs pin =
     \<lparr>doc_id = JScalar (Oid 1), doc_model = ''Person'',
      doc_fields = [(''contacts'', JArr cs), (''pinned'', pin)], doc_deleted = False\<rparr>"

definition person_inst :: "jsval \<Rightarrow> inst" where
  "person_inst pin =
     (new_inst (person_with [SubDoc 2 []] pin))
       \<lparr>old := Some (person_with [SubDoc 1 [], SubDoc 2 []] pin)\<rparr>"

definition contact_closure :: "refType \<Rightarrow> attached" where
  "contact_closure st =
     \<lparr>a_subRefModel = ''Person'', a_pathSubRef = ''contacts'', a_modelName = ''Message'',
      a_path = ''contact'', a_schemaType = st\<rparr>"

definition pinned_setnull_type :: refType where
  "pinned_setnull_type =
     \<lparr>rt_options = Some pinned_opts, rt_required = False, rt_cascade = False\<rparr>"

definition pinned_task :: task where
  "pinned_task =
     \<lparr>t_closure = contact_closure pinned_setnull_type, t_deletedValues = [SubDoc 1 []]\<rparr>"

definition message_models :: models where
  "message_models = [(''Message'', message_schema False False)]"

text \<open>
  Registrations for the examples: the person model is compiled first; a message with two
  references to the contacts of a person, \<open>contact\<close> and \<open>sender\<close>; a note whose \<open>subRef\<close>
  names the string field \<open>name\<close> of a person.
\<close>

definition person_reg :: reg where
  "person_reg = snd (consistentModel ''Person'' person_schema empty_reg)"

definition two_refs_schema :: schema where
  "two_refs_schema =
     Schema [(''contact'', ref_field True False), (''sender'', ref_field True False)] []"

definition note_schema :: schema where
  "note_schema =
     Schema [(''who'',
              SType ''SchemaString'' \<lparr>subRef = Some ''Person.name'', boundTo = None\<rparr> None
                True False None)] []"

text \<open>
  The invariant of the waiters: every pending promise of the document is in the chain of
  its resolver and in the chain of its rejecter.
\<close>

definition chain_of :: "nat list option \<Rightarrow> nat list" where
  "chain_of ch = (case ch of None \<Rightarrow> [] | Some c \<Rightarrow> c)"

definition waiters_chained :: "inst \<Rightarrow> bool" where
  "waiters_chained this =
     (\<forall>p < length (promises this). promises this ! p = Pending \<longrightarrow>
        p \<in> set (chain_of (subRefUpdateAfterSaveResolver this)) \<and>
        p \<in> set (chain_of (subRefUpdateAfterSaveRejecter this)))"

text \<open>
  The vocabulary of the transitive cascade. A document \<open>x\<close> cascades to a document \<open>y\<close>
  when the model of \<open>x\<close> carries the hooks and a required, cascading descriptor
  registered for it selects \<open>y\<close> by the find query built from \<open>x\<close>. A document is absent
  from a database when its collection does not hold it. A database is closed (with
  respect to the documents of an initial database) when every document that a now absent
  document cascades to is absent too.
\<close>

definition absent :: "doc \<Rightarrow> db \<Rightarrow> bool" where
  "absent x s = (x \<notin> set (s (doc_model x)))"

definition sub_db :: "db \<Rightarrow> db \<Rightarrow> bool" where
  "sub_db s' s = (\<forall>m. set (s' m) \<subseteq> set (s m))"

definition wf_db :: "db \<Rightarrow> bool" where
  "wf_db s = (\<forall>m. (\<forall>x \<in> set (s m). doc_model x = m) \<and> inj_on doc_id (set (s m)))"

definition selects :: "mongo \<Rightarrow> string \<Rightarrow> descriptor \<Rightarrow> doc \<Rightarrow> doc \<Rightarrow> bool" where
  "selects M mn r x y =
     (\<exists>so sr vs. rt_options (d_schemaType r) = Some so \<and> subRef so = Some sr \<and>
        getReferencedValues (drop (length mn + 1) sr) x = Inr vs \<and>
        doc_model y = d_modelName r \<and>
        query_matches M
          (getFindQueryObjectFor (d_modelName r) (d_path r) vs (boundRefValueOf so x)) y)"

definition cascades_to :: "reg \<Rightarrow> mongo \<Rightarrow> doc \<Rightarrow> doc \<Rightarrow> bool" where
  "cascades_to rs M x y =
     (doc_model x \<in> set (hooked rs) \<and>
      (\<exists>ds r. refs rs (doc_model x) = Some ds \<and> r \<in> set ds \<and>
         rt_required (d_schemaType r) \<and> rt_cascade (d_schemaType r) \<and>
         selects M (doc_model x) r x y))"

definition closed :: "reg \<Rightarrow> mongo \<Rightarrow> db \<Rightarrow> db \<Rightarrow> bool" where
  "closed rs M db0 s =
     (\<forall>x y. x \<in> set (db0 (doc_model x)) \<and> absent x s \<and> cascades_to rs M x y \<and>
            y \<in> set (db0 (doc_model y)) \<longrightarrow> absent y s)"

definition all_required :: "reg \<Rightarrow> bool" where
  "all_required rs =
     (\<forall>m ds. refs rs m = Some ds \<longrightarrow> (\<forall>r \<in> set ds. rt_required (d_schemaType r)))"

definition deletes_closed :: "reg \<Rightarrow> mongo \<Rightarrow> db \<Rightarrow> (doc \<Rightarrow> unit eff) \<Rightarrow> bool" where
  "deletes_closed rs M db0 op =
     (\<forall>x s s'. x \<in> set (db0 (doc_model x)) \<and> sub_db s db0 \<and> closed rs M db0 s \<and>
               op x s = (Inr (), s') \<longrightarrow>
               sub_db s' s \<and> closed rs M db0 s' \<and> absent x s')"

subsection \<open>The update target, by the words of the specification\<close>

text \<open>
  The path resolver of the specification, written without loops. A segment \<open>i\<close> before
  the terminal one is an array hop when the schema element at the prefix ending in it is
  an array of sub-documents. The update path is the referencing path, segment by
  segment, with a positional token after every array hop: the named token \<open>$[j]\<close> after
  the last hop, the all-elements token \<open>$[]\<close> after the earlier ones. The condition of the
  named filter is scoped to \<open>j\<close> and made of the segments after the last hop.
\<close>

definition is_array_hop :: "schema \<Rightarrow> string list \<Rightarrow> nat \<Rightarrow> bool" where
  "is_array_hop sch segs i =
     (case schema_path sch (join_dot (take (Suc i) segs)) of
        None \<Rightarrow> False
      | Some t \<Rightarrow> ctor t = ''DocumentArrayPath'')"

definition array_hops :: "schema \<Rightarrow> string list \<Rightarrow> nat list" where
  "array_hops sch segs = filter (is_array_hop sch segs) [0 ..< length segs - 1]"

definition last_array_hop :: "schema \<Rightarrow> string list \<Rightarrow> nat option" where
  "last_array_hop sch segs =
     (if array_hops sch segs = [] then None else Some (last (array_hops sch segs)))"

definition hop_token :: "schema \<Rightarrow> string list \<Rightarrow> nat \<Rightarrow> string" where
  "hop_token sch segs i =
     (if is_array_hop sch segs i
      then (if Some i = last_array_hop sch segs then ''$[j].'' else ''$[].'')
      else [])"

definition positional_update_path :: "schema \<Rightarrow> string list \<Rightarrow> string" where
  "positional_update_path sch segs =
     concat (map (\<lambda>i. segs ! i @ ''.'' @ hop_token sch segs i) [0 ..< length segs - 1])
       @ last segs"

definition filter_condition_path :: "schema \<Rightarrow> string list \<Rightarrow> string option" where
  "filter_condition_path sch segs =
     (case last_array_hop sch segs of
        None \<Rightarrow> None
      | Some l \<Rightarrow> Some (''j.'' @ join_dot (drop (Suc l) segs)))"

definition resolved_update ::
  "schema \<Rightarrow> stype \<Rightarrow> string \<Rightarrow> scalar list \<Rightarrow> updateQuery \<times> arrayFilters option" where
  "resolved_update sch t pathRef removed =
     (let target = positional_update_path sch (split_dot pathRef)
      in (if ctor t = ''SchemaArray'' then Pull target removed else SetNull target,
          (case filter_condition_path sch (split_dot pathRef) of
             None \<Rightarrow> None
           | Some p \<Rightarrow> Some (ArrayFilterIn p removed))))"

text \<open>
  A referencing model with two levels of sub-document arrays,
  \<open>boxes: [{ items: [{ contact: { subRef: 'Person.contacts' }, labels: [ObjectId] }] }]\<close>.
\<close>

definition shipment_schema :: schema where
  "shipment_schema =
     Schema [(''boxes'', plain_type ''DocumentArrayPath'')]
            [(''boxes.items'', plain_type ''DocumentArrayPath''),
             (''boxes.items.contact'', ref_field False False),
             (''boxes.items.labels'', plain_type ''SchemaArray'')]"

definition orders_db :: db where
  "orders_db =
     (\<lambda>m. [])(''Order'' :=
        [\<lparr>doc_id = JScalar (Oid 30), doc_model = ''Order'',
          doc_fields = [(''items'', JArr [SubDoc 31 [(''contact'', Oid 1)]]),
                        (''tags'', JArr [Prim (Oid 1), Prim (Oid 3)])],
          doc_deleted = False\<rparr>])"

text \<open>
  The removal a cascade calls on a matched document in a delete context, and its parts
  when the documents have the hooks of the plugin: the context the hook enforces in, the
  document the hook sees and what the method does to the store afterwards.
\<close>

definition removal :: "docOps \<Rightarrow> deleteContext option \<Rightarrow> doc \<Rightarrow> unit eff" where
  "removal ops c d =
     (if ctx_softDelete c then op_softDelete ops d (ctx_deleted c) else op_deleteOne ops d)"

definition ctx_norm :: "deleteContext option \<Rightarrow> deleteContext option" where
  "ctx_norm c =
     (if ctx_softDelete c then Some \<lparr>softDelete = True, deleted = ctx_deleted c\<rparr> else None)"

definition hook_doc :: "deleteContext option \<Rightarrow> doc \<Rightarrow> doc" where
  "hook_doc c d = (if ctx_softDelete c then d\<lparr>doc_deleted := ctx_deleted c\<rparr> else d)"

definition finish :: "deleteContext option \<Rightarrow> doc \<Rightarrow> db \<Rightarrow> db" where
  "finish c d = (if ctx_softDelete c then store_deleted d (ctx_deleted c) else remove_doc d)"

text \<open>
  The reference graph has no cycle when a rank decreases along every cascade. A store
  is blind to the soft-delete flag when its matching does not read it.
\<close>

definition ranked :: "reg \<Rightarrow> mongo \<Rightarrow> (doc \<Rightarrow> nat) \<Rightarrow> bool" where
  "ranked rs M rank = (\<forall>x y. cascades_to rs M x y \<longrightarrow> rank y < rank x)"

definition rank_blind :: "(doc \<Rightarrow> nat) \<Rightarrow> bool" where
  "rank_blind rank = (\<forall>d f. rank (d\<lparr>doc_deleted := f\<rparr>) = rank d)"

definition flag_blind :: "mongo \<Rightarrow> bool" where
  "flag_blind M = (\<forall>q d f. query_matches M q (d\<lparr>doc_deleted := f\<rparr>) = query_matches M q d)"

text \<open>
  The documents a document reaches: through any number of cascades, inside an initial
  database.
\<close>

definition reaches :: "reg \<Rightarrow> mongo \<Rightarrow> db \<Rightarrow> doc \<Rightarrow> doc \<Rightarrow> bool" where
  "reaches rs M db0 = (\<lambda>a b. cascades_to rs M a b \<and> b \<in> set (db0 (doc_model b)))\<^sup>*\<^sup>*"

text \<open>
  The vocabulary of the soft cascade. Two databases hold the same documents when their
  collections differ in the soft-delete flags only; a document is flagged in a database
  when the entries of its collection with its \<open>_id\<close> carry the flag; a step changes
  flags only when every entry is as it was or has got the flag.
\<close>

definition unflag :: "doc \<Rightarrow> doc" where
  "unflag d = d\<lparr>doc_deleted := False\<rparr>"

definition same_docs :: "db \<Rightarrow> db \<Rightarrow> bool" where
  "same_docs s s0 = (\<forall>m. map unflag (s m) = map unflag (s0 m))"

definition flagged :: "bool \<Rightarrow> doc \<Rightarrow> db \<Rightarrow> bool" where
  "flagged f y s = (\<forall>z \<in> set (s (doc_model y)). doc_id z = doc_id y \<longrightarrow> doc_deleted z = f)"

definition flags_only :: "bool \<Rightarrow> db \<Rightarrow> db \<Rightarrow> bool" where
  "flags_only f s' s =
     (\<forall>m. list_all2 (\<lambda>z' z. z' = z \<or> z' = z\<lparr>doc_deleted := f\<rparr>) (s' m) (s m))"

definition flags_reached :: "reg \<Rightarrow> mongo \<Rightarrow> db \<Rightarrow> bool \<Rightarrow> (doc \<Rightarrow> unit eff) \<Rightarrow> bool" where
  "flags_reached rs M db0 f op =
     (\<forall>d d0 s s'. unflag d = unflag d0 \<and> same_docs s db0 \<and> op d s = (Inr (), s') \<longrightarrow>
        flags_only f s' s \<and> (\<forall>z. reaches rs M db0 d0 z \<longrightarrow> flagged f z s'))"

text \<open>The rank of the chain of the examples: a person above a message above a receipt.\<close>

definition chain_rank :: "doc \<Rightarrow> nat" where
  "chain_rank d =
     (if doc_model d = ''Person'' then 2 else if doc_model d = ''Message'' then 1 else 0)"



text \<open>
  A registry with a cycle, for the examples: a node references a part of a node, required
  and cascading, and the one node of the database references its own part.
\<close>

definition cycle_reg :: reg where
  "cycle_reg =
     \<lparr>refs = (\<lambda>k. None)(''Node'' \<mapsto>
        [\<lparr>d_modelName = ''Node'', d_path = ''parent'',
          d_schemaType =
            \<lparr>rt_options = Some \<lparr>subRef = Some ''Node.parts'', boundTo = None\<rparr>,
             rt_required = True, rt_cascade = True\<rparr>\<rparr>]),
      compiled = [], validators = [], hooked = [''Node'']\<rparr>"

definition cycle_node :: doc where
  "cycle_node =
     \<lparr>doc_id = JScalar (Oid 1), doc_model = ''Node'',
      doc_fields = [(''parts'', JArr [SubDoc 7 []]), (''parent'', JScalar (Oid 7))],
      doc_deleted = False\<rparr>"

definition cycle_db :: db where
  "cycle_db = (\<lambda>m. [])(''Node'' := [cycle_node])"

section \<open>Block\<close>

lemma find_Some_match:
  "List.find P xs = Some x \<Longrightarrow> x \<in> set xs \<and> P x"
  by (induction xs) (auto split: if_splits)

lemma find_None_no_match:
  "(List.find P xs = None) = (\<forall>x \<in> set xs. \<not> P x)"
  by (induction xs) auto

lemma onDeleteBlock_db:
  "snd (onDeleteBlock M modelRef pathRef modelSubRef pathSubRef vs b c db) = db"
  by (simp add: onDeleteBlock_def split: option.splits)

lemma onDeleteBlock_throws:
  "(\<exists>e. fst (onDeleteBlock M modelRef pathRef modelSubRef pathSubRef vs b c db) = Inl e) =
   (\<not> (ctx_softDelete c \<and> \<not> ctx_deleted c) \<and>
    (\<exists>d \<in> set (db modelRef).
       query_matches M (if truthy b then ById b else PathIn pathRef vs) d))"
proof (cases "findOne M db modelRef (getFindQueryObjectFor modelRef pathRef vs b)")
  case None
  then have "\<forall>d \<in> set (db modelRef).
               \<not> query_matches M (getFindQueryObjectFor modelRef pathRef vs b) d"
    by (simp add: findOne_def find_None_no_match)
  then have "\<not> (\<exists>d \<in> set (db modelRef).
       query_matches M (if truthy b then ById b else PathIn pathRef vs) d)"
    by (simp add: getFindQueryObjectFor_def)
  moreover have "fst (onDeleteBlock M modelRef pathRef modelSubRef pathSubRef vs b c db) = Inr ()"
    using None by (simp add: onDeleteBlock_def)
  ultimately show ?thesis by simp
next
  case (Some d)
  then have "d \<in> set (db modelRef) \<and> query_matches M (getFindQueryObjectFor modelRef pathRef vs b) d"
    unfolding findOne_def by (rule find_Some_match)
  with Some show ?thesis
    by (auto simp: onDeleteBlock_def getFindQueryObjectFor_def)
qed

lemma onDeleteBlock_error:
  assumes "fst (onDeleteBlock M modelRef pathRef modelSubRef pathSubRef vs b c db) = Inl e"
  shows "\<exists>d \<in> set (db modelRef).
           query_matches M (if truthy b then ById b else PathIn pathRef vs) d \<and>
           e = SubRefConstraintError modelSubRef pathSubRef modelRef pathRef (doc_id d)"
proof (cases "findOne M db modelRef (getFindQueryObjectFor modelRef pathRef vs b)")
  case None
  with assms show ?thesis
    by (simp add: onDeleteBlock_def split: if_splits)
next
  case (Some d)
  then have "d \<in> set (db modelRef) \<and> query_matches M (getFindQueryObjectFor modelRef pathRef vs b) d"
    unfolding findOne_def by (rule find_Some_match)
  with Some assms show ?thesis
    by (auto simp: onDeleteBlock_def getFindQueryObjectFor_def split: if_splits)
qed

text \<open>
  C1. For a descriptor with \<open>required\<close> and without \<open>cascade\<close>, enforcement is the block
  check. It throws if and only if the delete context is not a soft-delete restore
  (\<open>softDelete\<close> with a false \<open>_deleted\<close>) and the referencing collection holds a document
  the find query matches: the query by the bound value when there is one, else the
  containment of any removed value. What it throws is the constraint error with the
  target model and path, the referencing model and path and the \<open>_id\<close> of a matching
  document. In every case the database is left as it was.
\<close>

theorem C1_block_raises_iff_referenced:
  assumes "rt_required st" and "\<not> rt_cascade st"
  shows
    "snd (onDeleteConditions M ms ops st modelRef pathRef modelSubRef pathSubRef vs b c db) = db
     \<and> ((\<exists>e. fst (onDeleteConditions M ms ops st modelRef pathRef modelSubRef pathSubRef vs b c db)
               = Inl e) =
        (\<not> (ctx_softDelete c \<and> \<not> ctx_deleted c) \<and>
         (\<exists>d \<in> set (db modelRef).
            query_matches M (if truthy b then ById b else PathIn pathRef vs) d)))
     \<and> (\<forall>e. fst (onDeleteConditions M ms ops st modelRef pathRef modelSubRef pathSubRef vs b c db)
               = Inl e \<longrightarrow>
          (\<exists>d \<in> set (db modelRef).
             query_matches M (if truthy b then ById b else PathIn pathRef vs) d \<and>
             e = SubRefConstraintError modelSubRef pathSubRef modelRef pathRef (doc_id d)))"
proof -
  have eq: "onDeleteConditions M ms ops st modelRef pathRef modelSubRef pathSubRef vs b c db =
            onDeleteBlock M modelRef pathRef modelSubRef pathSubRef vs b c db"
    using assms by (simp add: onDeleteConditions_def)
  show ?thesis
    unfolding eq
    using onDeleteBlock_db [of M modelRef pathRef modelSubRef pathSubRef vs b c db]
          onDeleteBlock_throws [of M modelRef pathRef modelSubRef pathSubRef vs b c db]
          onDeleteBlock_error [of M modelRef pathRef modelSubRef pathSubRef vs b c db]
    by blast
qed

theorem C1_block_witness:
  "rt_required block_type \<and> \<not> rt_cascade block_type \<and>
   onDeleteConditions example_store [] no_ops block_type ''Message'' ''contact''
       ''Person'' ''contacts'' [Oid 1] JNull None messages_db =
     (Inl (SubRefConstraintError ''Person'' ''contacts'' ''Message'' ''contact''
            (JScalar (Oid 11))), messages_db)"
proof -
  have r: "rt_required block_type" and c: "\<not> rt_cascade block_type"
    by (simp_all add: block_type_def)
  let ?r = "onDeleteConditions example_store [] no_ops block_type ''Message'' ''contact''
       ''Person'' ''contacts'' [Oid 1] JNull None messages_db"
  from C1_block_raises_iff_referenced [OF r c, of example_store "[]" no_ops "''Message''"
      "''contact''" "''Person''" "''contacts''" "[Oid 1]" JNull None messages_db]
  have db: "snd ?r = messages_db"
    and ex: "(\<exists>e. fst ?r = Inl e) =
        (\<not> (ctx_softDelete None \<and> \<not> ctx_deleted None) \<and>
         (\<exists>d \<in> set (messages_db ''Message'').
            query_matches example_store
              (if truthy JNull then ById JNull else PathIn ''contact'' [Oid 1]) d))"
    by blast+
  have "fst ?r = Inl (SubRefConstraintError ''Person'' ''contacts'' ''Message'' ''contact''
            (JScalar (Oid 11)))"
    by (simp add: onDeleteConditions_def onDeleteBlock_def block_type_def ctx_softDelete_def
        ctx_deleted_def findOne_def getFindQueryObjectFor_def example_store_def messages_db_def
        message_def get_def)
  with db r c show ?thesis
    by (simp add: prod_eq_iff)
qed

section \<open>The bound value\<close>

lemma boundRefValueOf_truthy:
  "truthy (boundRefValueOf so document) \<Longrightarrow>
   \<exists>f. boundTo so = Some f \<and> f \<noteq> [] \<and> boundRefValueOf so document = get document f"
  by (auto simp: boundRefValueOf_def split: option.splits if_splits)

text \<open>
  C10, as stated, fails for a bound value that is not null but that the conditional takes
  for false: the document declares \<open>boundTo\<close>, its bound field holds the number 0, and
  the query is the containment query; the document with \<open>_id\<close> 0, which references none
  of the removed values, does not block.
\<close>

theorem C10_counterexample:
  "boundTo pinned_opts = Some ''pinned'' \<and>
   boundRefValueOf pinned_opts (person (JScalar (Num 0))) = JScalar (Num 0) \<and>
   JScalar (Num 0) \<noteq> JNull \<and>
   getFindQueryObjectFor ''Message'' ''contact'' [Oid 1, Oid 2]
       (boundRefValueOf pinned_opts (person (JScalar (Num 0)))) =
     PathIn ''contact'' [Oid 1, Oid 2] \<and>
   onDeleteBlock example_store ''Message'' ''contact'' ''Person'' ''contacts'' [Oid 1, Oid 2]
       (boundRefValueOf pinned_opts (person (JScalar (Num 0)))) None numbered_db =
     (Inr (), numbered_db)"
  by (simp add: pinned_opts_def boundRefValueOf_def person_def get_def getFindQueryObjectFor_def
      onDeleteBlock_def ctx_softDelete_def ctx_deleted_def findOne_def example_store_def
      numbered_db_def)

text \<open>
  C10, amended. When the value read for the bound field is truthy (not null or undefined,
  and not false, 0 or the empty string), the descriptor declares \<open>boundTo\<close>, the find
  query is \<open>{ _id: boundValue }\<close> whatever the removed values are, and block, cascade and
  set-null select their documents by it alone.
\<close>

theorem C10_truthy_bound_value_pins_query:
  assumes "truthy b" and "b = boundRefValueOf so document"
  shows
    "(\<exists>f. boundTo so = Some f \<and> b = get document f)
     \<and> getFindQueryObjectFor modelRef pathRef vs b = ById b
     \<and> fst (onDeleteBlock M modelRef pathRef modelSubRef pathSubRef vs b c db) =
         (if ctx_softDelete c \<and> \<not> ctx_deleted c then Inr ()
          else (case List.find (query_matches M (ById b)) (db modelRef) of
                  None \<Rightarrow> Inr ()
                | Some d \<Rightarrow>
                    Inl (SubRefConstraintError modelSubRef pathSubRef modelRef pathRef (doc_id d))))
     \<and> onDeleteCascade M ops modelRef pathRef modelSubRef pathSubRef vs b c db =
         promise_all
           (map (\<lambda>d. if ctx_softDelete c then op_softDelete ops d (ctx_deleted c)
                      else op_deleteOne ops d)
              (filter (query_matches M (ById b)) (db modelRef))) db
     \<and> onDeleteSetNull M ms modelRef pathRef modelSubRef pathSubRef vs b c db =
         (if ctx_softDelete c then (Inr (), db)
          else (case getUpdateQueryObjectFor ms modelRef pathRef vs of
                  Inl e \<Rightarrow> (Inl e, db)
                | Inr (u, af) \<Rightarrow> (Inr (), updateMany M db modelRef (ById b) u af)))"
proof -
  have q: "getFindQueryObjectFor modelRef pathRef vs b = ById b"
    using assms(1) by (simp add: getFindQueryObjectFor_def)
  have f: "\<exists>f. boundTo so = Some f \<and> b = get document f"
    using assms boundRefValueOf_truthy [of so document] by auto
  have blk: "fst (onDeleteBlock M modelRef pathRef modelSubRef pathSubRef vs b c db) =
         (if ctx_softDelete c \<and> \<not> ctx_deleted c then Inr ()
          else (case List.find (query_matches M (ById b)) (db modelRef) of
                  None \<Rightarrow> Inr ()
                | Some d \<Rightarrow>
                    Inl (SubRefConstraintError modelSubRef pathSubRef modelRef pathRef (doc_id d))))"
    by (simp add: onDeleteBlock_def q findOne_def split: option.splits)
  have casc: "onDeleteCascade M ops modelRef pathRef modelSubRef pathSubRef vs b c db =
         promise_all
           (map (\<lambda>d. if ctx_softDelete c then op_softDelete ops d (ctx_deleted c)
                      else op_deleteOne ops d)
              (filter (query_matches M (ById b)) (db modelRef))) db"
    by (cases "ctx_softDelete c") (simp_all add: onDeleteCascade_def q find_docs_def Let_def)
  have sn: "onDeleteSetNull M ms modelRef pathRef modelSubRef pathSubRef vs b c db =
         (if ctx_softDelete c then (Inr (), db)
          else (case getUpdateQueryObjectFor ms modelRef pathRef vs of
                  Inl e \<Rightarrow> (Inl e, db)
                | Inr (u, af) \<Rightarrow> (Inr (), updateMany M db modelRef (ById b) u af)))"
    by (simp add: onDeleteSetNull_def q split: sum.splits)
  from f q blk casc sn show ?thesis by blast
qed

theorem C10_witness:
  "truthy (JScalar (Oid 12)) \<and>
   JScalar (Oid 12) = boundRefValueOf pinned_opts (person (JScalar (Oid 12))) \<and>
   getFindQueryObjectFor ''Message'' ''contact'' [Oid 1, Oid 2] (JScalar (Oid 12)) =
     ById (JScalar (Oid 12)) \<and>
   fst (onDeleteBlock example_store ''Message'' ''contact'' ''Person'' ''contacts''
          [Oid 7] (JScalar (Oid 12)) None messages_db) =
     Inl (SubRefConstraintError ''Person'' ''contacts'' ''Message'' ''contact'' (JScalar (Oid 12)))"
proof -
  have t: "truthy (JScalar (Oid 12))" by simp
  have b: "JScalar (Oid 12) = boundRefValueOf pinned_opts (person (JScalar (Oid 12)))"
    by (simp add: pinned_opts_def boundRefValueOf_def person_def get_def)
  from C10_truthy_bound_value_pins_query [OF t b, of "''Message''" "''contact''" "[Oid 7]"
      example_store "''Person''" "''contacts''" None messages_db]
  have "fst (onDeleteBlock example_store ''Message'' ''contact'' ''Person'' ''contacts''
          [Oid 7] (JScalar (Oid 12)) None messages_db) =
         (if ctx_softDelete None \<and> \<not> ctx_deleted None then Inr ()
          else (case List.find (query_matches example_store (ById (JScalar (Oid 12))))
                       (messages_db ''Message'') of
                  None \<Rightarrow> Inr ()
                | Some d \<Rightarrow>
                    Inl (SubRefConstraintError ''Person'' ''contacts'' ''Message'' ''contact''
                           (doc_id d))))"
    by blast
  then have "fst (onDeleteBlock example_store ''Message'' ''contact'' ''Person'' ''contacts''
          [Oid 7] (JScalar (Oid 12)) None messages_db) =
     Inl (SubRefConstraintError ''Person'' ''contacts'' ''Message'' ''contact'' (JScalar (Oid 12)))"
    by (simp add: ctx_softDelete_def ctx_deleted_def example_store_def messages_db_def message_def)
  with t b show ?thesis
    by (simp add: getFindQueryObjectFor_def)
qed

section \<open>The update path of a plain reference\<close>

lemma split_dot_not_Nil: "split_dot s \<noteq> []"
  by (induction s) (auto split: list.splits)

lemma join_dot_Cons: "ws \<noteq> [] \<Longrightarrow> join_dot (w # ws) = w @ ''.'' @ join_dot ws"
  by (cases ws) simp_all

lemma join_dot_Cons_char: "join_dot ((c # w) # ws) = c # join_dot (w # ws)"
  by (cases ws) simp_all

lemma join_split_dot: "join_dot (split_dot s) = s"
proof (induction s)
  case Nil
  then show ?case by simp
next
  case (Cons c cs)
  obtain w ws where s: "split_dot cs = w # ws"
    using split_dot_not_Nil [of cs] by (cases "split_dot cs") auto
  with Cons show ?case
    by (simp add: join_dot_Cons join_dot_Cons_char del: join_dot.simps)
qed

lemma join_dot_butlast:
  "segs \<noteq> [] \<Longrightarrow> concat (map (\<lambda>w. w @ ''.'') (butlast segs)) @ last segs = join_dot segs"
proof (induction segs)
  case Nil
  then show ?case by simp
next
  case (Cons w ws)
  then show ?case by (cases ws) (simp_all add: join_dot_Cons)
qed

lemma info_plain:
  assumes "\<forall>i < n. \<forall>t. schema_path sch (join_dot (take (Suc i) segs)) = Some t \<longrightarrow>
             ctor t \<noteq> ''DocumentArrayPath''"
  shows "fold (info_step sch segs) [0 ..< n] (None, []) = (None, replicate n False)"
  using assms
proof (induction n)
  case 0
  then show ?case by simp
next
  case (Suc n)
  from Suc.prems
  have "\<forall>i < n. \<forall>t. schema_path sch (join_dot (take (Suc i) segs)) = Some t \<longrightarrow>
             ctor t \<noteq> ''DocumentArrayPath''"
    using less_Suc_eq by blast
  then have "fold (info_step sch segs) [0 ..< n] (None, []) = (None, replicate n False)"
    by (rule Suc.IH)
  moreover have "info_step sch segs n (None, replicate n False) = (None, replicate n False @ [False])"
    using Suc.prems by (auto simp: info_step_def split: option.splits)
  ultimately show ?case
    by (simp add: replicate_append_same)
qed

lemma path_plain:
  assumes "n \<le> m" and "n < length segs"
  shows "fold (path_step segs (replicate m False) None) [0 ..< n] ([], []) =
           (concat (map (\<lambda>w. w @ ''.'') (take n segs)), [])"
  using assms
proof (induction n)
  case 0
  then show ?case by simp
next
  case (Suc n)
  then have "fold (path_step segs (replicate m False) None) [0 ..< n] ([], []) =
           (concat (map (\<lambda>w. w @ ''.'') (take n segs)), [])"
    by simp
  moreover have "path_step segs (replicate m False) None n
                   (concat (map (\<lambda>w. w @ ''.'') (take n segs)), []) =
                 (concat (map (\<lambda>w. w @ ''.'') (take (Suc n) segs)), [])"
    using Suc.prems by (simp add: path_step_def take_Suc_conv_app_nth)
  ultimately show ?case by simp
qed

text \<open>
  When no proper prefix of the referencing path is a document array, the update
  addresses the referencing path itself, without array filters: \<open>$pull\<close> of the removed
  values when its schema type is an array, \<open>$set\<close> to null otherwise.
\<close>

lemma update_query_plain_path:
  assumes "mongoose_model ms modelRef = Inr sch" and "schema_path sch pathRef = Some t"
    and "\<forall>i < length (split_dot pathRef) - 1. \<forall>t'.
           schema_path sch (join_dot (take (Suc i) (split_dot pathRef))) = Some t' \<longrightarrow>
           ctor t' \<noteq> ''DocumentArrayPath''"
  shows "getUpdateQueryObjectFor ms modelRef pathRef vs =
           Inr (if ctor t = ''SchemaArray'' then Pull pathRef vs else SetNull pathRef, None)"
proof -
  let ?segs = "split_dot pathRef"
  let ?n = "length ?segs - 1"
  have ne: "?segs \<noteq> []" by (rule split_dot_not_Nil)
  have info: "fold (info_step sch ?segs) [0 ..< ?n] (None, []) = (None, replicate ?n False)"
    using assms(3) by (rule info_plain)
  have "?n < length ?segs" using ne by (cases ?segs) simp_all
  then have "fold (path_step ?segs (replicate ?n False) None) [0 ..< ?n] ([], []) =
           (concat (map (\<lambda>w. w @ ''.'') (take ?n ?segs)), [])"
    by (intro path_plain) simp_all
  then have path: "fold (path_step ?segs (replicate ?n False) None) [0 ..< ?n] ([], []) =
           (concat (map (\<lambda>w. w @ ''.'') (butlast ?segs)), [])"
    by (simp add: butlast_conv_take)
  have "concat (map (\<lambda>w. w @ ''.'') (butlast ?segs)) @ last ?segs = pathRef"
    using join_dot_butlast [OF ne] by (simp add: join_split_dot)
  with assms(1,2) info path show ?thesis
    by (simp add: getUpdateQueryObjectFor_def Let_def)
qed

section \<open>Set-null\<close>

lemma info_step_hop:
  "info_step sch segs i (l, info) =
     (if is_array_hop sch segs i then (Some i, info @ [True]) else (l, info @ [False]))"
  by (simp add: info_step_def is_array_hop_def split: option.splits)

lemma fold_info_step:
  "fold (info_step sch segs) [0 ..< n] (None, []) =
     ((if filter (is_array_hop sch segs) [0 ..< n] = [] then None
       else Some (last (filter (is_array_hop sch segs) [0 ..< n]))),
      map (is_array_hop sch segs) [0 ..< n])"
  by (induction n) (simp_all add: info_step_hop)

lemma fold_path_step:
  "fold (path_step segs info l) [0 ..< n] ([], []) =
     (concat (map (\<lambda>i. segs ! i @ ''.'' @
                (if info ! i then (if Some i = l then ''$[j].'' else ''$[].'') else []))
              [0 ..< n]),
      concat (map (\<lambda>i. case l of None \<Rightarrow> [] | Some a \<Rightarrow> if a < i then segs ! i @ ''.'' else [])
              [0 ..< n]))"
  by (induction n) (simp_all add: path_step_def split: option.splits)

lemma segments_after:
  "n \<le> length segs \<Longrightarrow>
   concat (map (\<lambda>i. if a < i then segs ! i @ ''.'' else []) [0 ..< n]) =
   concat (map (\<lambda>w. w @ ''.'') (drop (Suc a) (take n segs)))"
proof (induction n)
  case 0
  then show ?case by simp
next
  case (Suc n)
  then have "take (Suc n) segs = take n segs @ [segs ! n]"
    by (simp add: take_Suc_conv_app_nth)
  with Suc show ?case by (auto simp: not_less Suc_le_eq)
qed

lemma filter_path_after:
  assumes "a < length segs - 1"
  shows "concat (map (\<lambda>i. if a < i then segs ! i @ ''.'' else []) [0 ..< length segs - 1])
           @ last segs = join_dot (drop (Suc a) segs)"
proof -
  have ne: "drop (Suc a) segs \<noteq> []" using assms by simp
  have "concat (map (\<lambda>i. if a < i then segs ! i @ ''.'' else []) [0 ..< length segs - 1]) =
        concat (map (\<lambda>w. w @ ''.'') (drop (Suc a) (take (length segs - 1) segs)))"
    by (rule segments_after) simp
  also have "drop (Suc a) (take (length segs - 1) segs) = butlast (drop (Suc a) segs)"
    by (simp add: butlast_conv_take drop_take)
  finally have "concat (map (\<lambda>i. if a < i then segs ! i @ ''.'' else []) [0 ..< length segs - 1])
           @ last segs =
         concat (map (\<lambda>w. w @ ''.'') (butlast (drop (Suc a) segs))) @ last (drop (Suc a) segs)"
    using assms by simp
  then show ?thesis using join_dot_butlast [OF ne] by simp
qed

lemma last_array_hop_less:
  "last_array_hop sch segs = Some l \<Longrightarrow> l < length segs - 1 \<and> is_array_hop sch segs l"
proof -
  assume a: "last_array_hop sch segs = Some l"
  then have ne: "array_hops sch segs \<noteq> []" and l: "l = last (array_hops sch segs)"
    by (auto simp: last_array_hop_def split: if_splits)
  from ne have "last (array_hops sch segs) \<in> set (array_hops sch segs)" by (rule last_in_set)
  with l show ?thesis by (auto simp: array_hops_def)
qed

text \<open>
  The update builder of the source computes the update target of the specification:
  its two loops produce exactly the positional update path and the filter condition.
\<close>

lemma getUpdateQueryObjectFor_resolved:
  "getUpdateQueryObjectFor ms modelRef pathRef vs =
     (case mongoose_model ms modelRef of
        Inl e \<Rightarrow> Inl e
      | Inr sch \<Rightarrow>
          (case schema_path sch pathRef of
             None \<Rightarrow> Inl TypeError
           | Some t \<Rightarrow> Inr (resolved_update sch t pathRef vs)))"
proof (cases "mongoose_model ms modelRef")
  case (Inl e)
  then show ?thesis by (simp add: getUpdateQueryObjectFor_def Let_def)
next
  case (Inr sch)
  let ?segs = "split_dot pathRef"
  let ?n = "length ?segs - 1"
  let ?info = "map (is_array_hop sch ?segs) [0 ..< ?n]"
  let ?l = "last_array_hop sch ?segs"
  have info: "fold (info_step sch ?segs) [0 ..< ?n] (None, []) = (?l, ?info)"
    by (simp add: fold_info_step last_array_hop_def array_hops_def)
  have up: "concat (map (\<lambda>i. ?segs ! i @ ''.'' @
                (if ?info ! i then (if Some i = ?l then ''$[j].'' else ''$[].'') else []))
              [0 ..< ?n]) @ last ?segs = positional_update_path sch ?segs"
  proof -
    have "map (\<lambda>i. ?segs ! i @ ''.'' @
                (if ?info ! i then (if Some i = ?l then ''$[j].'' else ''$[].'') else []))
              [0 ..< ?n] =
          map (\<lambda>i. ?segs ! i @ ''.'' @ hop_token sch ?segs i) [0 ..< ?n]"
      by (rule map_cong) (simp_all add: hop_token_def)
    then show ?thesis unfolding positional_update_path_def by (rule arg_cong)
  qed
  have cond: "(case ?l of None \<Rightarrow> None
               | Some a \<Rightarrow> Some (ArrayFilterIn
                   (''j.'' @ concat (map (\<lambda>i. case ?l of None \<Rightarrow> []
                          | Some a \<Rightarrow> if a < i then ?segs ! i @ ''.'' else []) [0 ..< ?n])
                      @ last ?segs) vs)) =
              (case filter_condition_path sch ?segs of
                 None \<Rightarrow> None | Some p \<Rightarrow> Some (ArrayFilterIn p vs))"
  proof (cases ?l)
    case None
    then show ?thesis by (simp add: filter_condition_path_def)
  next
    case (Some a)
    then have "a < ?n" using last_array_hop_less by blast
    then have "concat (map (\<lambda>i. if a < i then ?segs ! i @ ''.'' else []) [0 ..< ?n])
           @ last ?segs = join_dot (drop (Suc a) ?segs)"
      by (rule filter_path_after)
    with Some show ?thesis by (simp add: filter_condition_path_def)
  qed
  show ?thesis
  proof (cases "schema_path sch pathRef")
    case None
    with Inr info show ?thesis
      by (simp add: getUpdateQueryObjectFor_def Let_def fold_path_step)
  next
    case (Some t)
    with Inr info up cond show ?thesis
      by (simp add: getUpdateQueryObjectFor_def Let_def fold_path_step resolved_update_def
          split: option.splits)
  qed
qed


lemma update_path_segments:
  "concat (map (\<lambda>i. split_dot pathRef ! i @ ''.'') [0 ..< length (split_dot pathRef) - 1])
     @ last (split_dot pathRef) = pathRef"
proof -
  let ?segs = "split_dot pathRef"
  have ne: "?segs \<noteq> []" by (rule split_dot_not_Nil)
  have "map (\<lambda>i. ?segs ! i @ ''.'') [0 ..< length ?segs - 1] =
        map (\<lambda>w. w @ ''.'') (map (nth ?segs) [0 ..< length (butlast ?segs)])"
    by (simp add: comp_def)
  also have "map (nth ?segs) [0 ..< length (butlast ?segs)] = butlast ?segs"
    by (rule nth_equalityI) (simp_all add: nth_butlast)
  finally show ?thesis using join_dot_butlast [OF ne] by (simp add: join_split_dot)
qed

lemma positional_update_path_plain:
  assumes "array_hops sch (split_dot pathRef) = []"
  shows "positional_update_path sch (split_dot pathRef) = pathRef"
    and "filter_condition_path sch (split_dot pathRef) = None"
proof -
  have "\<forall>i \<in> set [0 ..< length (split_dot pathRef) - 1]. \<not> is_array_hop sch (split_dot pathRef) i"
    using assms unfolding array_hops_def filter_empty_conv by blast
  then have m: "map (\<lambda>i. split_dot pathRef ! i @ ''.'' @ hop_token sch (split_dot pathRef) i)
               [0 ..< length (split_dot pathRef) - 1] =
             map (\<lambda>i. split_dot pathRef ! i @ ''.'') [0 ..< length (split_dot pathRef) - 1]"
    by (intro map_cong) (simp_all add: hop_token_def)
  show "positional_update_path sch (split_dot pathRef) = pathRef"
    unfolding positional_update_path_def m by (rule update_path_segments)
  show "filter_condition_path sch (split_dot pathRef) = None"
    using assms by (simp add: filter_condition_path_def last_array_hop_def)
qed

lemma filter_condition_path_iff:
  "(filter_condition_path sch segs = None) = (\<forall>i < length segs - 1. \<not> is_array_hop sch segs i)"
  by (auto simp: filter_condition_path_def last_array_hop_def array_hops_def filter_empty_conv
      split: option.splits)

text \<open>
  C3. For a descriptor that is not \<open>required\<close>, enforcement is set-null. In a soft-delete
  context (deleting or restoring) it returns with the database as it was. On a hard
  delete it runs \<open>updateMany\<close> once on the referencing collection, with the find query and
  the update of the referencing path: the update pulls the removed values from the field
  when the schema type of the referencing path is an array, and sets the field to null
  otherwise. The field it addresses is the terminal field of the referencing path, reached
  through every document array on the way: the update path is the referencing path with
  \<open>$[j]\<close> after the last document array and \<open>$[]\<close> after the earlier ones, and the array
  filter keeps the elements \<open>j\<close> whose remaining path holds one of the removed values;
  there is an array filter exactly when a document array lies on the path. If the
  referencing model or path is unknown to the object mapper, the lookup's error is thrown
  and nothing is updated.
\<close>

theorem C3_set_null_only_on_hard_delete:
  assumes "\<not> rt_required st"
  shows
    "(ctx_softDelete c \<longrightarrow>
        onDeleteConditions M ms ops st modelRef pathRef modelSubRef pathSubRef vs b c db
          = (Inr (), db))
     \<and> (\<not> ctx_softDelete c \<longrightarrow>
          (case mongoose_model ms modelRef of
             Inl e \<Rightarrow>
               onDeleteConditions M ms ops st modelRef pathRef modelSubRef pathSubRef vs b c db
                 = (Inl e, db)
           | Inr sch \<Rightarrow>
               (case schema_path sch pathRef of
                  None \<Rightarrow>
                    onDeleteConditions M ms ops st modelRef pathRef modelSubRef pathSubRef vs b c db
                      = (Inl TypeError, db)
                | Some t \<Rightarrow>
                    onDeleteConditions M ms ops st modelRef pathRef modelSubRef pathSubRef vs b c db
                      = (Inr (),
                         updateMany M db modelRef
                           (if truthy b then ById b else PathIn pathRef vs)
                           (if ctor t = ''SchemaArray''
                            then Pull (positional_update_path sch (split_dot pathRef)) vs
                            else SetNull (positional_update_path sch (split_dot pathRef)))
                           (case filter_condition_path sch (split_dot pathRef) of
                              None \<Rightarrow> None
                            | Some p \<Rightarrow> Some (ArrayFilterIn p vs))))))"
proof -
  have eq: "onDeleteConditions M ms ops st modelRef pathRef modelSubRef pathSubRef vs b c db =
            onDeleteSetNull M ms modelRef pathRef modelSubRef pathSubRef vs b c db"
    using assms by (simp add: onDeleteConditions_def)
  show ?thesis
    unfolding eq
    by (simp add: onDeleteSetNull_def getUpdateQueryObjectFor_resolved resolved_update_def
        getFindQueryObjectFor_def Let_def split: sum.splits option.splits)
qed

lemma order_paths:
  "schema_path order_schema ''items.contact'' = Some (ref_field False False)"
  "schema_path order_schema ''tags'' = Some (plain_type ''SchemaArray'')"
  "schema_path order_schema ''contact'' = None"
  "schema_path shipment_schema ''boxes.items.contact'' = Some (ref_field False False)"
  "schema_path shipment_schema ''boxes.items.labels'' = Some (plain_type ''SchemaArray'')"
  "schema_path (message_schema False False) ''contact'' = Some (ref_field False False)"
  "ctor (ref_field False False) = ''ObjectId''"
  "ctor (plain_type ''SchemaArray'') = ''SchemaArray''"
  by (simp_all add: order_schema_def shipment_schema_def message_schema_def schema_path_def
      ref_field_def plain_type_def)

lemma order_update_target:
  "positional_update_path order_schema (split_dot ''items.contact'') = ''items.$[j].contact''"
  "filter_condition_path order_schema (split_dot ''items.contact'') = Some ''j.contact''"
  "positional_update_path order_schema (split_dot ''tags'') = ''tags''"
  "filter_condition_path order_schema (split_dot ''tags'') = None"
  by (simp_all add: positional_update_path_def filter_condition_path_def hop_token_def
      last_array_hop_def array_hops_def is_array_hop_def order_schema_def schema_path_def
      ref_field_def plain_type_def)

lemma shipment_update_target:
  "positional_update_path shipment_schema (split_dot ''boxes.items.contact'') =
     ''boxes.$[].items.$[j].contact''"
  "filter_condition_path shipment_schema (split_dot ''boxes.items.contact'') = Some ''j.contact''"
  "positional_update_path shipment_schema (split_dot ''boxes.items.labels'') =
     ''boxes.$[].items.$[j].labels''"
  "filter_condition_path shipment_schema (split_dot ''boxes.items.labels'') = Some ''j.labels''"
  by (simp_all add: positional_update_path_def filter_condition_path_def hop_token_def
      last_array_hop_def array_hops_def is_array_hop_def shipment_schema_def schema_path_def
      ref_field_def plain_type_def upt_rec)

theorem C3_set_null_witness:
  "\<not> rt_required setnull_type \<and>
   onDeleteConditions example_store [(''Message'', message_schema False False)] no_ops
       setnull_type ''Message'' ''contact'' ''Person'' ''contacts'' [Oid 1] JNull
       (Some \<lparr>softDelete = True, deleted = True\<rparr>) messages_db = (Inr (), messages_db) \<and>
   onDeleteConditions example_store [(''Message'', message_schema False False)] no_ops
       setnull_type ''Message'' ''contact'' ''Person'' ''contacts'' [Oid 1] JNull None messages_db =
     (Inr (), updateMany example_store messages_db ''Message'' (PathIn ''contact'' [Oid 1])
                (SetNull ''contact'') None) \<and>
   onDeleteConditions example_store [(''Order'', order_schema)] no_ops
       setnull_type ''Order'' ''items.contact'' ''Person'' ''contacts'' [Oid 1] JNull None orders_db =
     (Inr (), updateMany example_store orders_db ''Order'' (PathIn ''items.contact'' [Oid 1])
                (SetNull ''items.$[j].contact'') (Some (ArrayFilterIn ''j.contact'' [Oid 1]))) \<and>
   onDeleteConditions example_store [(''Order'', order_schema)] no_ops
       setnull_type ''Order'' ''tags'' ''Person'' ''contacts'' [Oid 1] JNull None orders_db =
     (Inr (), updateMany example_store orders_db ''Order'' (PathIn ''tags'' [Oid 1]) (Pull ''tags'' [Oid 1]) None) \<and>
   onDeleteConditions example_store [(''Shipment'', shipment_schema)] no_ops
       setnull_type ''Shipment'' ''boxes.items.contact'' ''Person'' ''contacts'' [Oid 1] JNull
       None orders_db =
     (Inr (), updateMany example_store orders_db ''Shipment'' (PathIn ''boxes.items.contact'' [Oid 1])
                (SetNull ''boxes.$[].items.$[j].contact'')
                (Some (ArrayFilterIn ''j.contact'' [Oid 1]))) \<and>
   onDeleteConditions example_store [(''Shipment'', shipment_schema)] no_ops
       setnull_type ''Shipment'' ''boxes.items.labels'' ''Person'' ''contacts'' [Oid 1, Oid 2]
       JNull None orders_db =
     (Inr (), updateMany example_store orders_db ''Shipment'' (PathIn ''boxes.items.labels'' [Oid 1, Oid 2])
                (Pull ''boxes.$[].items.$[j].labels'' [Oid 1, Oid 2])
                (Some (ArrayFilterIn ''j.labels'' [Oid 1, Oid 2]))) \<and>
   onDeleteConditions example_store [(''Order'', order_schema)] no_ops
       setnull_type ''Message'' ''contact'' ''Person'' ''contacts'' [Oid 1] JNull None orders_db =
     (Inl MissingSchemaError, orders_db) \<and>
   onDeleteConditions example_store [(''Order'', order_schema)] no_ops
       setnull_type ''Order'' ''contact'' ''Person'' ''contacts'' [Oid 1] JNull None orders_db =
     (Inl TypeError, orders_db)"
proof -
  have r: "\<not> rt_required setnull_type" by (simp add: setnull_type_def)
  have s: "ctx_softDelete (Some \<lparr>softDelete = True, deleted = True\<rparr>)"
    and h: "\<not> ctx_softDelete None"
    by (simp_all add: ctx_softDelete_def)
  have plain: "positional_update_path (message_schema False False) (split_dot ''contact'') = ''contact''"
    "filter_condition_path (message_schema False False) (split_dot ''contact'') = None"
    by (simp_all add: positional_update_path_def filter_condition_path_def hop_token_def
      last_array_hop_def array_hops_def)
  from C3_set_null_only_on_hard_delete [OF r, of "Some \<lparr>softDelete = True, deleted = True\<rparr>"
      example_store "[(''Message'', message_schema False False)]" no_ops "''Message''"
      "''contact''" "''Person''" "''contacts''" "[Oid 1]" JNull messages_db] s
  have 1: "onDeleteConditions example_store [(''Message'', message_schema False False)] no_ops
       setnull_type ''Message'' ''contact'' ''Person'' ''contacts'' [Oid 1] JNull
       (Some \<lparr>softDelete = True, deleted = True\<rparr>) messages_db = (Inr (), messages_db)"
    by blast
  from C3_set_null_only_on_hard_delete [OF r, of None
      example_store "[(''Message'', message_schema False False)]" no_ops "''Message''"
      "''contact''" "''Person''" "''contacts''" "[Oid 1]" JNull messages_db] h plain
  have 2: "onDeleteConditions example_store [(''Message'', message_schema False False)] no_ops
       setnull_type ''Message'' ''contact'' ''Person'' ''contacts'' [Oid 1] JNull None messages_db =
     (Inr (), updateMany example_store messages_db ''Message'' (PathIn ''contact'' [Oid 1])
                (SetNull ''contact'') None)"
    by (simp add: mongoose_model_def order_paths)
  from C3_set_null_only_on_hard_delete [OF r, of None
      example_store "[(''Order'', order_schema)]" no_ops "''Order''"
      "''items.contact''" "''Person''" "''contacts''" "[Oid 1]" JNull orders_db] h
  have 3: "onDeleteConditions example_store [(''Order'', order_schema)] no_ops
       setnull_type ''Order'' ''items.contact'' ''Person'' ''contacts'' [Oid 1] JNull None orders_db =
     (Inr (), updateMany example_store orders_db ''Order'' (PathIn ''items.contact'' [Oid 1])
                (SetNull ''items.$[j].contact'') (Some (ArrayFilterIn ''j.contact'' [Oid 1])))"
    by (simp add: mongoose_model_def order_update_target [simplified] order_paths)
  from C3_set_null_only_on_hard_delete [OF r, of None
      example_store "[(''Order'', order_schema)]" no_ops "''Order''"
      "''tags''" "''Person''" "''contacts''" "[Oid 1]" JNull orders_db] h
  have 4: "onDeleteConditions example_store [(''Order'', order_schema)] no_ops
       setnull_type ''Order'' ''tags'' ''Person'' ''contacts'' [Oid 1] JNull None orders_db =
     (Inr (), updateMany example_store orders_db ''Order'' (PathIn ''tags'' [Oid 1]) (Pull ''tags'' [Oid 1]) None)"
    by (simp add: mongoose_model_def order_update_target [simplified] order_paths)
  from C3_set_null_only_on_hard_delete [OF r, of None
      example_store "[(''Shipment'', shipment_schema)]" no_ops "''Shipment''"
      "''boxes.items.contact''" "''Person''" "''contacts''" "[Oid 1]" JNull orders_db] h
  have 5: "onDeleteConditions example_store [(''Shipment'', shipment_schema)] no_ops
       setnull_type ''Shipment'' ''boxes.items.contact'' ''Person'' ''contacts'' [Oid 1] JNull
       None orders_db =
     (Inr (), updateMany example_store orders_db ''Shipment'' (PathIn ''boxes.items.contact'' [Oid 1])
                (SetNull ''boxes.$[].items.$[j].contact'')
                (Some (ArrayFilterIn ''j.contact'' [Oid 1])))"
    by (simp add: mongoose_model_def shipment_update_target [simplified] order_paths)
  from C3_set_null_only_on_hard_delete [OF r, of None
      example_store "[(''Shipment'', shipment_schema)]" no_ops "''Shipment''"
      "''boxes.items.labels''" "''Person''" "''contacts''" "[Oid 1, Oid 2]" JNull orders_db] h
  have 6: "onDeleteConditions example_store [(''Shipment'', shipment_schema)] no_ops
       setnull_type ''Shipment'' ''boxes.items.labels'' ''Person'' ''contacts'' [Oid 1, Oid 2]
       JNull None orders_db =
     (Inr (), updateMany example_store orders_db ''Shipment'' (PathIn ''boxes.items.labels'' [Oid 1, Oid 2])
                (Pull ''boxes.$[].items.$[j].labels'' [Oid 1, Oid 2])
                (Some (ArrayFilterIn ''j.labels'' [Oid 1, Oid 2])))"
    by (simp add: mongoose_model_def shipment_update_target [simplified] order_paths)
  from C3_set_null_only_on_hard_delete [OF r, of None
      example_store "[(''Order'', order_schema)]" no_ops "''Message''"
      "''contact''" "''Person''" "''contacts''" "[Oid 1]" JNull orders_db] h
  have 7: "onDeleteConditions example_store [(''Order'', order_schema)] no_ops
       setnull_type ''Message'' ''contact'' ''Person'' ''contacts'' [Oid 1] JNull None orders_db =
     (Inl MissingSchemaError, orders_db)"
    by (simp add: mongoose_model_def)
  from C3_set_null_only_on_hard_delete [OF r, of None
      example_store "[(''Order'', order_schema)]" no_ops "''Order''"
      "''contact''" "''Person''" "''contacts''" "[Oid 1]" JNull orders_db] h
  have 8: "onDeleteConditions example_store [(''Order'', order_schema)] no_ops
       setnull_type ''Order'' ''contact'' ''Person'' ''contacts'' [Oid 1] JNull None orders_db =
     (Inl TypeError, orders_db)"
    by (simp add: mongoose_model_def order_paths)
  from r 1 2 3 4 5 6 7 8 show ?thesis by blast
qed

lemma set_null_example_store:
  "updateMany example_store messages_db ''Message'' (PathIn ''contact'' [Oid 1])
       (SetNull ''contact'') None ''Message'' =
     [message 10 2,
      (message 11 1)\<lparr>doc_fields := [(''contact'', JNull)]\<rparr>,
      (message 12 1)\<lparr>doc_fields := [(''contact'', JNull)]\<rparr>]"
  by (simp add: updateMany_def example_store_def messages_db_def message_def get_def set_path_def)

lemma update_query_nested_example:
  "getUpdateQueryObjectFor [(''Order'', order_schema)] ''Order'' ''items.contact'' [Oid 1] =
     Inr (SetNull ''items.$[j].contact'', Some (ArrayFilterIn ''j.contact'' [Oid 1]))"
  by (simp add: getUpdateQueryObjectFor_def mongoose_model_def order_schema_def
      schema_path_def ref_field_def plain_type_def Let_def info_step_def path_step_def)

lemma update_query_array_example:
  "getUpdateQueryObjectFor [(''Order'', order_schema)] ''Order'' ''tags'' [Oid 1] =
     Inr (Pull ''tags'' [Oid 1], None)"
  by (simp add: getUpdateQueryObjectFor_def mongoose_model_def order_schema_def
      schema_path_def ref_field_def plain_type_def Let_def info_step_def path_step_def)

section \<open>Cascade\<close>

lemma promise_all_Cons:
  "promise_all (t # ts) db =
     ((case fst (t db) of Inl e \<Rightarrow> Inl e | Inr u \<Rightarrow> fst (promise_all ts (snd (t db)))),
      snd (promise_all ts (snd (t db))))"
  by (cases "t db") (auto split: prod.splits sum.splits)

lemma promise_all_state:
  "snd (promise_all ts db) = fold (\<lambda>t s. snd (t s)) ts db"
  by (induction ts arbitrary: db) (simp_all add: promise_all_Cons del: promise_all.simps(2))

lemma promise_all_ok:
  "(fst (promise_all ts db) = Inr ()) =
   (\<forall>i < length ts. fst ((ts ! i) (fold (\<lambda>t s. snd (t s)) (take i ts) db)) = Inr ())"
proof (induction ts arbitrary: db)
  case Nil
  then show ?case by simp
next
  case (Cons t ts)
  obtain r db1 where t: "t db = (r, db1)" by (cases "t db")
  have "(\<forall>i < length (t # ts).
           fst (((t # ts) ! i) (fold (\<lambda>t s. snd (t s)) (take i (t # ts)) db)) = Inr ()) =
        (fst (t db) = Inr () \<and>
         (\<forall>i < length ts. fst ((ts ! i) (fold (\<lambda>t s. snd (t s)) (take i ts) (snd (t db)))) = Inr ()))"
    by (auto simp: less_Suc_eq_0_disj)
  with Cons.IH [of db1] t show ?case
    by (auto split: prod.splits sum.splits)
qed

lemma promise_all_error:
  "fst (promise_all ts db) = Inl e \<Longrightarrow>
   \<exists>i < length ts. fst ((ts ! i) (fold (\<lambda>t s. snd (t s)) (take i ts) db)) = Inl e \<and>
     (\<forall>j < i. fst ((ts ! j) (fold (\<lambda>t s. snd (t s)) (take j ts) db)) = Inr ())"
proof (induction ts arbitrary: db)
  case Nil
  then show ?case by simp
next
  case (Cons t ts)
  obtain r db1 where t: "t db = (r, db1)" by (cases "t db")
  show ?case
  proof (cases r)
    case (Inl e')
    with Cons.prems t have "e' = e" by (auto split: prod.splits)
    with Inl t have "fst (((t # ts) ! 0) (fold (\<lambda>t s. snd (t s)) (take 0 (t # ts)) db)) = Inl e"
      by simp
    then show ?thesis by (intro exI [of _ 0]) simp
  next
    case (Inr u)
    with Cons.prems t have "fst (promise_all ts db1) = Inl e" by (auto split: prod.splits)
    from Cons.IH [OF this] obtain i where i: "i < length ts"
      "fst ((ts ! i) (fold (\<lambda>t s. snd (t s)) (take i ts) db1)) = Inl e"
      "\<forall>j < i. fst ((ts ! j) (fold (\<lambda>t s. snd (t s)) (take j ts) db1)) = Inr ()"
      by blast
    have "\<forall>j < Suc i. fst (((t # ts) ! j) (fold (\<lambda>t s. snd (t s)) (take j (t # ts)) db)) = Inr ()"
      using i(3) t Inr by (auto simp: less_Suc_eq_0_disj)
    moreover have "fst (((t # ts) ! Suc i) (fold (\<lambda>t s. snd (t s)) (take (Suc i) (t # ts)) db)) = Inl e"
      using i(2) t by simp
    ultimately show ?thesis using i(1) by (intro exI [of _ "Suc i"]) simp
  qed
qed


lemma chain_reg_value:
  "refs chain_reg ''Person'' =
     Some [\<lparr>d_modelName = ''Message'', d_path = ''contact'',
            d_schemaType = of_stype (ref_field True True)\<rparr>]"
  "refs chain_reg ''Message'' =
     Some [\<lparr>d_modelName = ''Receipt'', d_path = ''part'',
            d_schemaType =
              \<lparr>rt_options = Some \<lparr>subRef = Some ''Message.parts'', boundTo = None\<rparr>,
               rt_required = True, rt_cascade = True\<rparr>\<rparr>]"
  "refs chain_reg ''Receipt'' = Some []"
  "hooked chain_reg = [''Receipt'', ''Message'', ''Person'']"
  by (simp_all add: chain_reg_def consistentModel_def plugin_def empty_reg_def
      chain_person_schema_def chain_message_schema_def chain_receipt_schema_def
      plain_type_def ref_field_def truthy_str_def key_of_def getRootRef_def refs_or_empty_def
      setValidator_def of_stype_def mongoose_model_def schema_path_def Let_def)

lemma chain_compiled:
  "compiled chain_reg =
     [(''Receipt'', chain_receipt_schema), (''Message'', chain_message_schema),
      (''Person'', chain_person_schema)]"
  by (simp add: chain_reg_def consistentModel_def plugin_def empty_reg_def
      chain_person_schema_def chain_message_schema_def chain_receipt_schema_def
      plain_type_def ref_field_def truthy_str_def key_of_def getRootRef_def refs_or_empty_def
      setValidator_def of_stype_def mongoose_model_def schema_path_def Let_def)

lemma chain_cascade_value:
  "onDeleteConditions example_store (compiled chain_reg) (doc_ops chain_reg example_store (Suc (Suc 0)))
       cascade_type ''Message'' ''contact'' ''Person'' ''contacts'' [Oid 1, Oid 2] JNull None
       chain_db =
     (Inr (), chain_db(''Receipt'' := [chain_receipt 21 110],
                       ''Message'' := [chain_message 11 5 110]))"
  by (simp add: onDeleteConditions_def onDeleteCascade_def cascade_type_def
      getFindQueryObjectFor_def find_docs_def ctx_softDelete_def ctx_deleted_def
      example_store_def chain_db_def chain_message_def chain_receipt_def get_def
      onDelete_def onDelete_one_def chain_reg_value getReferencedValues_def
      boundRefValueOf_def remove_doc_def of_stype_def ref_field_def Let_def fun_upd_twist)


lemma chain_delete_person:
  "op_deleteOne (doc_ops chain_reg example_store (Suc (Suc (Suc 0)))) chain_person chain_db =
     (Inr (), chain_db(''Receipt'' := [chain_receipt 21 110],
                       ''Message'' := [chain_message 11 5 110],
                       ''Person'' := []))"
proof -
  have "op_deleteOne (doc_ops chain_reg example_store (Suc (Suc (Suc 0)))) chain_person chain_db =
     (Inr (), remove_doc chain_person
                (chain_db(''Receipt'' := [chain_receipt 21 110],
                          ''Message'' := [chain_message 11 5 110])))"
    using chain_cascade_value
    by (simp add: chain_reg_value onDelete_def onDelete_one_def chain_person_def get_def
        getReferencedValues_def boundRefValueOf_def of_stype_def ref_field_def cascade_type_def)
  moreover have "remove_doc chain_person
                (chain_db(''Receipt'' := [chain_receipt 21 110],
                          ''Message'' := [chain_message 11 5 110])) =
         chain_db(''Receipt'' := [chain_receipt 21 110],
                       ''Message'' := [chain_message 11 5 110],
                       ''Person'' := [])"
    by (simp add: remove_doc_def chain_person_def chain_db_def)
  ultimately show ?thesis by simp
qed

section \<open>The removed values\<close>

lemma same_value_same_element: "same_value o' n = same_element o' n"
proof (cases o')
  case (SubDoc i f)
  then show ?thesis by (simp add: same_value_def)
next
  case (Prim s)
  then show ?thesis by (cases s) (simp_all add: same_value_def equals_method_def)
qed

lemma deletedValuesOf_arrays:
  "deletedValuesOf (JArr olds) (JArr news) = Inr (removedValueSet olds news)"
  by (simp add: deletedValuesOf_def removedValueSet_def same_value_same_element list_ex_iff)

lemma validator_nothing_removed:
  "deletedValuesOf (oldValuesOf this (a_pathSubRef a)) newValues = Inr [] \<Longrightarrow>
   validator M ms ops a this newValues db = (Inr True, this, db)"
  by (simp add: validator_def)

text \<open>
  C6. On a save of a target array field (the prior value, or the empty array when there
  is no old document, and the new value are arrays), the deleted values the validator
  computes are the removed-value set of the specification: the elements of the prior
  value for which no element of the new value is the same, by id for a sub-document, and
  by its own \<open>equals\<close> when it has one, else by strict equality, for a scalar. When the
  set is empty the validator returns true and leaves the document and the database as
  they were.
\<close>

theorem C6_removed_values:
  assumes "oldValuesOf this (a_pathSubRef a) = JArr olds" and "newValues = JArr news"
  shows
    "deletedValuesOf (oldValuesOf this (a_pathSubRef a)) newValues
       = Inr (removedValueSet olds news)
     \<and> (removedValueSet olds news = [] \<longrightarrow>
          validator M ms ops a this newValues db = (Inr True, this, db))"
  using assms validator_nothing_removed [of this a newValues M ms ops db]
  by (simp add: deletedValuesOf_arrays)

theorem C6_removed_values_witness:
  "oldValuesOf (person_inst JNull) (a_pathSubRef (contact_closure block_type))
     = JArr [SubDoc 1 [], SubDoc 2 []] \<and>
   deletedValuesOf (oldValuesOf (person_inst JNull) (a_pathSubRef (contact_closure block_type)))
       (JArr [SubDoc 2 [(''email'', Str ''new'')]])
     = Inr [SubDoc 1 []] \<and>
   removedValueSet [SubDoc 1 [], SubDoc 2 []] [SubDoc 2 [], SubDoc 1 [], SubDoc 3 []] = [] \<and>
   validator example_store [] no_ops (contact_closure block_type) (person_inst JNull)
       (JArr [SubDoc 2 [], SubDoc 1 [], SubDoc 3 []]) messages_db
     = (Inr True, person_inst JNull, messages_db)"
proof -
  have o: "oldValuesOf (person_inst JNull) (a_pathSubRef (contact_closure block_type))
     = JArr [SubDoc 1 [], SubDoc 2 []]"
    by (simp add: oldValuesOf_def person_inst_def contact_closure_def person_with_def get_def)
  have r: "removedValueSet [SubDoc 1 [], SubDoc 2 []] [SubDoc 2 [(''email'', Str ''new'')]]
             = [SubDoc 1 []]"
    by (simp add: removedValueSet_def oid_equals_def)
  have e: "removedValueSet [SubDoc 1 [], SubDoc 2 []] [SubDoc 2 [], SubDoc 1 [], SubDoc 3 []] = []"
    by (simp add: removedValueSet_def oid_equals_def)
  from C6_removed_values [OF o refl, of "[SubDoc 2 [(''email'', Str ''new'')]]"] r
  have 1: "deletedValuesOf
       (oldValuesOf (person_inst JNull) (a_pathSubRef (contact_closure block_type)))
       (JArr [SubDoc 2 [(''email'', Str ''new'')]]) = Inr [SubDoc 1 []]"
    by simp
  from C6_removed_values [OF o refl, of "[SubDoc 2 [], SubDoc 1 [], SubDoc 3 []]"
      example_store "[]" no_ops messages_db] e
  have 2: "validator example_store [] no_ops (contact_closure block_type) (person_inst JNull)
       (JArr [SubDoc 2 [], SubDoc 1 [], SubDoc 3 []]) messages_db
     = (Inr True, person_inst JNull, messages_db)"
    by simp
  from o 1 e 2 show ?thesis by blast
qed

lemma removed_scalars_example:
  "removedValueSet [Prim (Str ''a''), Prim (Num 0), Prim (Oid 3)] [Prim (Oid 3), Prim (Str ''a'')]
     = [Prim (Num 0)]"
  by (simp add: removedValueSet_def oid_equals_def equals_method_def)

section \<open>The validator\<close>

lemma remover_block:
  assumes "rt_required (a_schemaType a)" and "\<not> rt_cascade (a_schemaType a)"
  shows "remover M ms ops \<lparr>t_closure = a, t_deletedValues = dv\<rparr> d db =
           (case rt_options (a_schemaType a) of
              None \<Rightarrow> (Inl TypeError, db)
            | Some so \<Rightarrow>
                onDeleteBlock M (a_modelName a) (a_path a) (a_subRefModel a) (a_pathSubRef a)
                  (map id_or_self dv) (boundRefValueOf so d) None db)"
  using assms by (simp add: remover_def onDeleteConditions_def split: option.splits)

lemma remover_block_db:
  assumes "rt_required (a_schemaType a)" and "\<not> rt_cascade (a_schemaType a)"
  shows "snd (remover M ms ops \<lparr>t_closure = a, t_deletedValues = dv\<rparr> d db) = db"
  using onDeleteBlock_db
  by (simp add: remover_block [OF assms] split: option.splits)

lemma remover_block_error:
  assumes "rt_required (a_schemaType a)" and "\<not> rt_cascade (a_schemaType a)"
    and "fst (remover M ms ops \<lparr>t_closure = a, t_deletedValues = dv\<rparr> d db) =
           Inl (SubRefConstraintError m1 p1 m2 p2 i)"
  shows "m1 = a_subRefModel a \<and> p1 = a_pathSubRef a \<and> m2 = a_modelName a \<and> p2 = a_path a \<and>
         (\<exists>x \<in> set (db (a_modelName a)). i = doc_id x)"
proof (cases "rt_options (a_schemaType a)")
  case None
  with assms show ?thesis by (simp add: remover_block)
next
  case (Some so)
  with assms(3) have "fst (onDeleteBlock M (a_modelName a) (a_path a) (a_subRefModel a)
      (a_pathSubRef a) (map id_or_self dv) (boundRefValueOf so d) None db) =
      Inl (SubRefConstraintError m1 p1 m2 p2 i)"
    by (simp add: remover_block [OF assms(1,2)])
  from onDeleteBlock_error [OF this] show ?thesis by auto
qed

lemma post_save_self: "self (fst (snd (post_save M ms ops this db))) = self this"
  by (simp add: post_save_def post_save_start_def post_save_finish_def Let_def
      split: option.splits prod.splits sum.splits)

lemma validator_self_changed:
  assumes "self (fst (snd (validator M ms ops a this newValues db))) \<noteq> self this"
  shows "rt_required (a_schemaType a) \<and> \<not> rt_cascade (a_schemaType a) \<and>
         (\<exists>m1 p1 m2 p2 i. fst (validator M ms ops a this newValues db) =
                             Inl (ValidatorError m1 p1 m2 p2 i))"
  using assms
  by (auto simp: validator_def Let_def split: sum.splits if_splits prod.splits error.splits)


lemma get_set_path: "get (set_path d p v) p = v"
  by (simp add: get_def set_path_def)

text \<open>
  C5. When the descriptor is \<open>required\<close> without \<open>cascade\<close>, values were removed and the
  block check that the validator runs throws the constraint error, the validator sets
  the target field of the document in memory back to the old values and throws its own
  error with the details of the constraint error: the target model and path, the
  referencing model and path, and the \<open>_id\<close> of a document of the referencing collection;
  the database is as it was. The document in memory is changed by the validator in this
  case only, and never by the updates after the save.
\<close>

theorem C5_rollback_on_blocked_save:
  "(rt_required (a_schemaType a) \<and> \<not> rt_cascade (a_schemaType a) \<and>
    deletedValuesOf (oldValuesOf this (a_pathSubRef a)) newValues = Inr dv \<and> dv \<noteq> [] \<and>
    fst (remover M ms ops \<lparr>t_closure = a, t_deletedValues = dv\<rparr> (self this) db)
      = Inl (SubRefConstraintError m1 p1 m2 p2 i) \<longrightarrow>
      validator M ms ops a this newValues db
        = (Inl (ValidatorError m1 p1 m2 p2 i),
           this\<lparr>self := set_path (self this) (a_pathSubRef a)
                            (oldValuesOf this (a_pathSubRef a))\<rparr>,
           db)
      \<and> get (self (fst (snd (validator M ms ops a this newValues db)))) (a_pathSubRef a)
          = oldValuesOf this (a_pathSubRef a)
      \<and> m1 = a_subRefModel a \<and> p1 = a_pathSubRef a \<and> m2 = a_modelName a \<and> p2 = a_path a
      \<and> (\<exists>x \<in> set (db (a_modelName a)). i = doc_id x))
   \<and> (self (fst (snd (validator M ms ops a this newValues db))) \<noteq> self this \<longrightarrow>
        rt_required (a_schemaType a) \<and> \<not> rt_cascade (a_schemaType a) \<and>
        (\<exists>m1 p1 m2 p2 i. fst (validator M ms ops a this newValues db)
                            = Inl (ValidatorError m1 p1 m2 p2 i)))
   \<and> self (fst (snd (post_save M ms ops this db))) = self this"
proof -
  have blocked:
    "validator M ms ops a this newValues db
        = (Inl (ValidatorError m1 p1 m2 p2 i),
           this\<lparr>self := set_path (self this) (a_pathSubRef a)
                            (oldValuesOf this (a_pathSubRef a))\<rparr>,
           db)
      \<and> get (self (fst (snd (validator M ms ops a this newValues db)))) (a_pathSubRef a)
          = oldValuesOf this (a_pathSubRef a)
      \<and> m1 = a_subRefModel a \<and> p1 = a_pathSubRef a \<and> m2 = a_modelName a \<and> p2 = a_path a
      \<and> (\<exists>x \<in> set (db (a_modelName a)). i = doc_id x)"
    if rq: "rt_required (a_schemaType a)" and ca: "\<not> rt_cascade (a_schemaType a)"
      and dv: "deletedValuesOf (oldValuesOf this (a_pathSubRef a)) newValues = Inr dv" "dv \<noteq> []"
      and f: "fst (remover M ms ops \<lparr>t_closure = a, t_deletedValues = dv\<rparr> (self this) db)
                = Inl (SubRefConstraintError m1 p1 m2 p2 i)"
  proof -
    have "snd (remover M ms ops \<lparr>t_closure = a, t_deletedValues = dv\<rparr> (self this) db) = db"
      using rq ca by (rule remover_block_db)
    with f have r: "remover M ms ops \<lparr>t_closure = a, t_deletedValues = dv\<rparr> (self this) db
                     = (Inl (SubRefConstraintError m1 p1 m2 p2 i), db)"
      by (simp add: prod_eq_iff)
    have v: "validator M ms ops a this newValues db
        = (Inl (ValidatorError m1 p1 m2 p2 i),
           this\<lparr>self := set_path (self this) (a_pathSubRef a)
                            (oldValuesOf this (a_pathSubRef a))\<rparr>,
           db)"
      using rq ca dv r by (simp add: validator_def Let_def)
    from remover_block_error [OF rq ca f] v show ?thesis
      by (simp add: get_set_path)
  qed
  from blocked validator_self_changed [of M ms ops a this newValues db]
    post_save_self [of M ms ops this db]
  show ?thesis by blast
qed

theorem C5_rollback_witness:
  "rt_required (a_schemaType (contact_closure block_type)) \<and>
   \<not> rt_cascade (a_schemaType (contact_closure block_type)) \<and>
   deletedValuesOf
       (oldValuesOf (person_inst JNull) (a_pathSubRef (contact_closure block_type)))
       (JArr [SubDoc 2 []]) = Inr [SubDoc 1 []] \<and>
   fst (remover example_store [] no_ops
          \<lparr>t_closure = contact_closure block_type, t_deletedValues = [SubDoc 1 []]\<rparr>
          (self (person_inst JNull)) messages_db)
     = Inl (SubRefConstraintError ''Person'' ''contacts'' ''Message'' ''contact''
              (JScalar (Oid 11))) \<and>
   fst (validator example_store [] no_ops (contact_closure block_type) (person_inst JNull)
          (JArr [SubDoc 2 []]) messages_db)
     = Inl (ValidatorError ''Person'' ''contacts'' ''Message'' ''contact'' (JScalar (Oid 11))) \<and>
   get (self (fst (snd (validator example_store [] no_ops (contact_closure block_type)
                          (person_inst JNull) (JArr [SubDoc 2 []]) messages_db))))
       ''contacts''
     = JArr [SubDoc 1 [], SubDoc 2 []]"
proof -
  have rq: "rt_required (a_schemaType (contact_closure block_type))"
    and ca: "\<not> rt_cascade (a_schemaType (contact_closure block_type))"
    by (simp_all add: contact_closure_def block_type_def)
  have o: "oldValuesOf (person_inst JNull) (a_pathSubRef (contact_closure block_type))
     = JArr [SubDoc 1 [], SubDoc 2 []]"
    by (simp add: oldValuesOf_def person_inst_def contact_closure_def person_with_def get_def)
  have dv: "deletedValuesOf
       (oldValuesOf (person_inst JNull) (a_pathSubRef (contact_closure block_type)))
       (JArr [SubDoc 2 []]) = Inr [SubDoc 1 []]"
    by (simp add: o deletedValuesOf_arrays removedValueSet_def oid_equals_def)
  have f: "fst (remover example_store [] no_ops
          \<lparr>t_closure = contact_closure block_type, t_deletedValues = [SubDoc 1 []]\<rparr>
          (self (person_inst JNull)) messages_db)
     = Inl (SubRefConstraintError ''Person'' ''contacts'' ''Message'' ''contact''
              (JScalar (Oid 11)))"
    by (simp add: remover_def contact_closure_def block_type_def onDeleteConditions_def
        onDeleteBlock_def boundRefValueOf_def ctx_softDelete_def ctx_deleted_def findOne_def
        getFindQueryObjectFor_def example_store_def messages_db_def message_def get_def)
  have p: "a_pathSubRef (contact_closure block_type) = ''contacts''"
    by (simp add: contact_closure_def)
  from C5_rollback_on_blocked_save [of "contact_closure block_type" "person_inst JNull"
      "JArr [SubDoc 2 []]" "[SubDoc 1 []]" example_store "[]" no_ops messages_db
      "''Person''" "''contacts''" "''Message''" "''contact''" "JScalar (Oid 11)"]
    rq ca dv f
  have "validator example_store [] no_ops (contact_closure block_type) (person_inst JNull)
          (JArr [SubDoc 2 []]) messages_db
        = (Inl (ValidatorError ''Person'' ''contacts'' ''Message'' ''contact'' (JScalar (Oid 11))),
           (person_inst JNull)\<lparr>self := set_path (self (person_inst JNull))
                (a_pathSubRef (contact_closure block_type))
                (oldValuesOf (person_inst JNull) (a_pathSubRef (contact_closure block_type)))\<rparr>,
           messages_db)"
    by blast
  with rq ca dv f o show ?thesis
    by (simp add: p get_set_path)
qed


section \<open>Deferred tasks\<close>

lemma pinned_old_values:
  "oldValuesOf (person_inst pin) (a_pathSubRef (contact_closure st))
     = JArr [SubDoc 1 [], SubDoc 2 []]"
  by (simp add: oldValuesOf_def person_inst_def contact_closure_def person_with_def get_def)

lemma pinned_deleted_values:
  "deletedValuesOf (oldValuesOf (person_inst pin) (a_pathSubRef (contact_closure st)))
     (JArr [SubDoc 2 []]) = Inr [SubDoc 1 []]"
  by (simp add: pinned_old_values deletedValuesOf_arrays removedValueSet_def oid_equals_def)

text \<open>
  C4, as stated, fails where it says that the queued task captures the bound value. The
  descriptor is not required and declares \<open>boundTo\<close>; when the validator queues the task
  the bound field of the document holds the id 10; the field is set to 11 before the
  updates after the save run; the update then goes to the document 11, and the document
  10 is left as it was.
\<close>

theorem C4_counterexample:
  "boundRefValueOf pinned_opts (self (person_inst (JScalar (Oid 10)))) = JScalar (Oid 10) \<and>
   validator example_store message_models no_ops (contact_closure pinned_setnull_type)
       (person_inst (JScalar (Oid 10))) (JArr [SubDoc 2 []]) messages_db
     = (Inr True,
        (person_inst (JScalar (Oid 10)))\<lparr>subRefUpdateAfterSave := Some [pinned_task]\<rparr>,
        messages_db) \<and>
   snd (snd (post_save example_store message_models no_ops
               ((person_inst (JScalar (Oid 10)))
                  \<lparr>subRefUpdateAfterSave := Some [pinned_task],
                   self := set_path (self (person_inst (JScalar (Oid 10)))) ''pinned''
                             (JScalar (Oid 11))\<rparr>)
               messages_db)) ''Message''
     = [message 10 2, (message 11 1)\<lparr>doc_fields := [(''contact'', JNull)]\<rparr>, message 12 1]"
proof -
  have 1: "boundRefValueOf pinned_opts (self (person_inst (JScalar (Oid 10)))) = JScalar (Oid 10)"
    by (simp add: boundRefValueOf_def pinned_opts_def person_inst_def new_inst_def
        person_with_def get_def)
  have 2: "validator example_store message_models no_ops (contact_closure pinned_setnull_type)
       (person_inst (JScalar (Oid 10))) (JArr [SubDoc 2 []]) messages_db
     = (Inr True,
        (person_inst (JScalar (Oid 10)))\<lparr>subRefUpdateAfterSave := Some [pinned_task]\<rparr>,
        messages_db)"
    by (simp add: validator_def pinned_deleted_values Let_def pinned_task_def)
       (simp add: contact_closure_def pinned_setnull_type_def person_inst_def new_inst_def)
  have g: "getUpdateQueryObjectFor message_models ''Message'' ''contact'' [Oid (Suc 0)]
             = Inr (SetNull ''contact'', None)"
    by (simp add: getUpdateQueryObjectFor_def mongoose_model_def message_schema_def
        message_models_def schema_path_def ref_field_def Let_def)
  have 3: "snd (snd (post_save example_store message_models no_ops
               ((person_inst (JScalar (Oid 10)))
                  \<lparr>subRefUpdateAfterSave := Some [pinned_task],
                   self := set_path (self (person_inst (JScalar (Oid 10)))) ''pinned''
                             (JScalar (Oid 11))\<rparr>)
               messages_db)) ''Message''
     = [message 10 2, (message 11 1)\<lparr>doc_fields := [(''contact'', JNull)]\<rparr>, message 12 1]"
    by (simp add: post_save_def post_save_start_def post_save_finish_def remover_def
        pinned_task_def contact_closure_def pinned_setnull_type_def pinned_opts_def
        onDeleteConditions_def onDeleteSetNull_def ctx_softDelete_def g Let_def
        boundRefValueOf_def person_inst_def new_inst_def person_with_def set_path_def get_def
        getFindQueryObjectFor_def updateMany_def example_store_def messages_db_def message_def)
  from 1 2 3 show ?thesis by blast
qed

lemma post_save_runs_tasks:
  assumes "subRefUpdateAfterSave this = Some ts"
  shows "snd (snd (post_save M ms ops this db))
           = snd (promise_all (map (\<lambda>t. remover M ms ops t (self this)) ts) db)
         \<and> subRefUpdateAfterSave (fst (snd (post_save M ms ops this db))) = None"
  using assms
  by (simp add: post_save_def post_save_start_def post_save_finish_def Let_def
      split: prod.splits sum.splits)

text \<open>
  C4, amended. On a save that removes values: when the descriptor is \<open>required\<close> without
  \<open>cascade\<close>, the validator runs the block check at once, its result decides the
  validation, nothing is queued and the database is as it was. For every other
  combination the validator touches nothing in the database and queues a task on the
  document, which holds the validator's closure (with the descriptor) and the removed
  values. The hook after the save runs the queued tasks and empties the queue. A task
  that runs reads the bound value from the document as it is then, and enforces the
  policy with it.
\<close>

theorem C4_block_now_others_deferred:
  assumes "deletedValuesOf (oldValuesOf this (a_pathSubRef a)) newValues = Inr dv"
    and "dv \<noteq> []"
  shows
    "(rt_required (a_schemaType a) \<and> \<not> rt_cascade (a_schemaType a) \<longrightarrow>
        fst (validator M ms ops a this newValues db) =
          (case fst (remover M ms ops \<lparr>t_closure = a, t_deletedValues = dv\<rparr> (self this) db) of
             Inl (SubRefConstraintError m1 p1 m2 p2 i) \<Rightarrow> Inl (ValidatorError m1 p1 m2 p2 i)
           | Inl e \<Rightarrow> Inl e
           | Inr u \<Rightarrow> Inr True)
        \<and> subRefUpdateAfterSave (fst (snd (validator M ms ops a this newValues db)))
            = subRefUpdateAfterSave this
        \<and> snd (snd (validator M ms ops a this newValues db)) = db)
     \<and> (\<not> (rt_required (a_schemaType a) \<and> \<not> rt_cascade (a_schemaType a)) \<longrightarrow>
          validator M ms ops a this newValues db =
            (Inr True,
             this\<lparr>subRefUpdateAfterSave :=
                    Some ((case subRefUpdateAfterSave this of None \<Rightarrow> [] | Some ts \<Rightarrow> ts) @
                          [\<lparr>t_closure = a, t_deletedValues = dv\<rparr>])\<rparr>,
             db))
     \<and> (\<forall>this' ts db'. subRefUpdateAfterSave this' = Some ts \<longrightarrow>
          snd (snd (post_save M ms ops this' db'))
            = snd (promise_all (map (\<lambda>t. remover M ms ops t (self this')) ts) db')
          \<and> subRefUpdateAfterSave (fst (snd (post_save M ms ops this' db'))) = None)
     \<and> (\<forall>so d db'. rt_options (a_schemaType a) = Some so \<longrightarrow>
          remover M ms ops \<lparr>t_closure = a, t_deletedValues = dv\<rparr> d db' =
            onDeleteConditions M ms ops (a_schemaType a) (a_modelName a) (a_path a)
              (a_subRefModel a) (a_pathSubRef a) (map id_or_self dv)
              (boundRefValueOf so d) None db')"
proof -
  let ?t = "\<lparr>t_closure = a, t_deletedValues = dv\<rparr>"
  have sync: "fst (validator M ms ops a this newValues db) =
          (case fst (remover M ms ops ?t (self this) db) of
             Inl (SubRefConstraintError m1 p1 m2 p2 i) \<Rightarrow> Inl (ValidatorError m1 p1 m2 p2 i)
           | Inl e \<Rightarrow> Inl e
           | Inr u \<Rightarrow> Inr True)
        \<and> subRefUpdateAfterSave (fst (snd (validator M ms ops a this newValues db)))
            = subRefUpdateAfterSave this
        \<and> snd (snd (validator M ms ops a this newValues db)) = db"
    if rq: "rt_required (a_schemaType a)" and ca: "\<not> rt_cascade (a_schemaType a)"
  proof -
    obtain r db1 where r: "remover M ms ops ?t (self this) db = (r, db1)"
      by (cases "remover M ms ops ?t (self this) db")
    with remover_block_db [OF rq ca, of M ms ops dv "self this" db] have "db1 = db" by simp
    with r rq ca assms show ?thesis
      by (simp add: validator_def Let_def split: sum.splits error.splits)
  qed
  have deferred: "validator M ms ops a this newValues db =
            (Inr True,
             this\<lparr>subRefUpdateAfterSave :=
                    Some ((case subRefUpdateAfterSave this of None \<Rightarrow> [] | Some ts \<Rightarrow> ts) @ [?t])\<rparr>,
             db)"
    if "\<not> (rt_required (a_schemaType a) \<and> \<not> rt_cascade (a_schemaType a))"
    using that assms by (auto simp: validator_def Let_def)
  have run: "remover M ms ops ?t d db' =
            onDeleteConditions M ms ops (a_schemaType a) (a_modelName a) (a_path a)
              (a_subRefModel a) (a_pathSubRef a) (map id_or_self dv)
              (boundRefValueOf so d) None db'"
    if "rt_options (a_schemaType a) = Some so" for so d db'
    using that by (simp add: remover_def)
  from sync deferred run post_save_runs_tasks [of _ _ M ms ops]
  show ?thesis by blast
qed

theorem C4_deferred_witness:
  "deletedValuesOf
     (oldValuesOf (person_inst (JScalar (Oid 10)))
        (a_pathSubRef (contact_closure pinned_setnull_type)))
     (JArr [SubDoc 2 []]) = Inr [SubDoc 1 []] \<and>
   [SubDoc 1 []] \<noteq> ([] :: elem list) \<and>
   \<not> (rt_required (a_schemaType (contact_closure pinned_setnull_type)) \<and>
      \<not> rt_cascade (a_schemaType (contact_closure pinned_setnull_type))) \<and>
   validator example_store message_models no_ops (contact_closure pinned_setnull_type)
       (person_inst (JScalar (Oid 10))) (JArr [SubDoc 2 []]) messages_db
     = (Inr True,
        (person_inst (JScalar (Oid 10)))
          \<lparr>subRefUpdateAfterSave :=
             Some [\<lparr>t_closure = contact_closure pinned_setnull_type,
                    t_deletedValues = [SubDoc 1 []]\<rparr>]\<rparr>,
        messages_db)"
proof -
  have n: "\<not> (rt_required (a_schemaType (contact_closure pinned_setnull_type)) \<and>
      \<not> rt_cascade (a_schemaType (contact_closure pinned_setnull_type)))"
    by (simp add: contact_closure_def pinned_setnull_type_def)
  have q: "subRefUpdateAfterSave (person_inst (JScalar (Oid 10))) = None"
    by (simp add: person_inst_def new_inst_def)
  have ne: "[SubDoc 1 []] \<noteq> ([] :: elem list)" by simp
  from C4_block_now_others_deferred
      [OF pinned_deleted_values [of "JScalar (Oid 10)" pinned_setnull_type] ne,
       where M = example_store and ms = message_models and ops = no_ops and db = messages_db] n
  have "validator example_store message_models no_ops (contact_closure pinned_setnull_type)
       (person_inst (JScalar (Oid 10))) (JArr [SubDoc 2 []]) messages_db
     = (Inr True,
        (person_inst (JScalar (Oid 10)))
          \<lparr>subRefUpdateAfterSave :=
             Some ((case subRefUpdateAfterSave (person_inst (JScalar (Oid 10))) of
                      None \<Rightarrow> [] | Some ts \<Rightarrow> ts) @
                   [\<lparr>t_closure = contact_closure pinned_setnull_type,
                     t_deletedValues = [SubDoc 1 []]\<rparr>])\<rparr>,
        messages_db)"
    by blast
  with n pinned_deleted_values [of "JScalar (Oid 10)" pinned_setnull_type] show ?thesis
    by (simp add: q)
qed

section \<open>The registry\<close>

lemma person_reg_value:
  "person_reg =
     \<lparr>refs = (\<lambda>k. None)(''Person'' \<mapsto> []), compiled = [(''Person'', person_schema)],
      validators = [], hooked = [''Person'']\<rparr>"
  by (simp add: person_reg_def consistentModel_def plugin_def empty_reg_def person_schema_def
      plain_type_def truthy_str_def Let_def)

lemma getRootRef_Person_contacts: "getRootRef ''Person.contacts'' = ''Person''"
  by (simp add: getRootRef_def)

lemma setValidator_refs: "refs (snd (setValidator mn p st rs)) = refs rs"
  by (simp add: setValidator_def Let_def split: option.splits sum.splits)

text \<open>
  What \<open>eachPath\<close> writes for a field that declares \<open>subRef\<close>: it reads the previous list
  under the whole \<open>subRef\<close> string and writes under the model name. Unless a list is
  registered under the whole string, the list under the model name is replaced by the
  new descriptor alone.
\<close>

lemma eachPath_replaces:
  assumes "c \<noteq> ''SchemaArray''" and "subRef so = Some sr" and "sr \<noteq> []"
    and "refs rs sr = None"
  shows "refs (snd (eachPath mn p (SType c so t0 rq ca None) rs)) (getRootRef sr) =
           Some [\<lparr>d_modelName = mn, d_path = p,
                  d_schemaType = of_stype (SType c so t0 rq ca None)\<rparr>]"
  using assms
  by (simp add: truthy_str_def key_of_def refs_or_empty_def setValidator_refs Let_def)

text \<open>
  C7 fails on the code. Registering a message model with two fields that reference the
  contacts of a person succeeds, and the registry then holds under \<open>Person\<close> the
  descriptor of the second field only: the first was not preserved.
\<close>

theorem C7_registry_keeps_last_descriptor_only:
  "fst (consistentModel ''Message'' two_refs_schema person_reg) = Inr () \<and>
   refs (snd (consistentModel ''Message'' two_refs_schema person_reg)) ''Person'' =
     Some [\<lparr>d_modelName = ''Message'', d_path = ''sender'',
            d_schemaType = of_stype (ref_field True False)\<rparr>] \<and>
   map a_path (validators (snd (consistentModel ''Message'' two_refs_schema person_reg))) =
     [''contact'', ''sender'']"
  by (simp add: person_reg_value consistentModel_def plugin_def two_refs_schema_def
      ref_field_def truthy_str_def key_of_def refs_or_empty_def getRootRef_Person_contacts
      setValidator_def mongoose_model_def schema_path_def person_schema_def plain_type_def
      of_stype_def Let_def)

section \<open>Registration and the shape of the target\<close>

text \<open>
  C9, as stated, fails: a model whose \<open>subRef\<close> names a string field of the target is
  registered without error; the reference is in the registry and a validator is attached
  to the string field.
\<close>

theorem C9_counterexample:
  "schema_path person_schema ''name'' = Some (plain_type ''SchemaString'') \<and>
   fst (consistentModel ''Note'' note_schema person_reg) = Inr () \<and>
   map d_path (the (refs (snd (consistentModel ''Note'' note_schema person_reg)) ''Person''))
     = [''who''] \<and>
   map a_pathSubRef (validators (snd (consistentModel ''Note'' note_schema person_reg)))
     = [''name'']"
  by (simp add: person_reg_value consistentModel_def plugin_def note_schema_def
      truthy_str_def key_of_def refs_or_empty_def getRootRef_def
      setValidator_def mongoose_model_def schema_path_def person_schema_def plain_type_def
      of_stype_def Let_def)

text \<open>
  C9, amended. Registration does not look at the shape of the target. Attaching the
  validator for a declared reference succeeds exactly when the first segment of \<open>subRef\<close>
  names a compiled model and the rest resolves to a schema type of that model, of
  whatever kind; otherwise it throws the lookup's error, a \<open>MissingSchemaError\<close> or a
  \<open>TypeError\<close>.
\<close>

theorem C9_registration_checks_resolution_only:
  "((fst (setValidator mn pathRef st rs) = Inr ()) =
      (\<exists>so sr sch t. rt_options st = Some so \<and> subRef so = Some sr \<and>
         mongoose_model (compiled rs) (getRootRef sr) = Inr sch \<and>
         schema_path sch (drop (length (getRootRef sr) + 1) sr) = Some t))
   \<and> (\<forall>e. fst (setValidator mn pathRef st rs) = Inl e \<longrightarrow>
         e = TypeError \<or> e = MissingSchemaError)"
  by (auto simp: setValidator_def mongoose_model_def Let_def split: option.splits sum.splits)

theorem C9_registration_witness:
  "fst (setValidator ''Note'' ''who''
          \<lparr>rt_options = Some \<lparr>subRef = Some ''Person.name'', boundTo = None\<rparr>,
           rt_required = True, rt_cascade = False\<rparr> person_reg) = Inr () \<and>
   fst (setValidator ''Note'' ''who''
          \<lparr>rt_options = Some \<lparr>subRef = Some ''Animal.legs'', boundTo = None\<rparr>,
           rt_required = True, rt_cascade = False\<rparr> person_reg) = Inl MissingSchemaError"
proof -
  let ?st = "\<lparr>rt_options = Some \<lparr>subRef = Some ''Person.name'', boundTo = None\<rparr>,
           rt_required = True, rt_cascade = False\<rparr>"
  let ?st2 = "\<lparr>rt_options = Some \<lparr>subRef = Some ''Animal.legs'', boundTo = None\<rparr>,
           rt_required = True, rt_cascade = False\<rparr>"
  have "\<exists>so sr sch t. rt_options ?st = Some so \<and> subRef so = Some sr \<and>
         mongoose_model (compiled person_reg) (getRootRef sr) = Inr sch \<and>
         schema_path sch (drop (length (getRootRef sr) + 1) sr) = Some t"
    by (simp add: person_reg_value getRootRef_def mongoose_model_def schema_path_def
        person_schema_def)
  with C9_registration_checks_resolution_only [of "''Note''" "''who''" ?st person_reg]
  have 1: "fst (setValidator ''Note'' ''who'' ?st person_reg) = Inr ()"
    by blast
  have "fst (setValidator ''Note'' ''who'' ?st2 person_reg) \<noteq> Inr ()"
    by (simp add: setValidator_def person_reg_value getRootRef_def mongoose_model_def)
  moreover have "fst (setValidator ''Note'' ''who'' ?st2 person_reg) \<noteq> Inl TypeError"
    by (simp add: setValidator_def person_reg_value getRootRef_def mongoose_model_def)
  ultimately have 2: "fst (setValidator ''Note'' ''who'' ?st2 person_reg) = Inl MissingSchemaError"
    using C9_registration_checks_resolution_only [of "''Note''" "''who''" ?st2 person_reg]
    by (cases "fst (setValidator ''Note'' ''who'' ?st2 person_reg)") auto
  from 1 2 show ?thesis by blast
qed

section \<open>Waiting for the updates\<close>

text \<open>
  C8 fails on the code where nothing is pending. On a document for which no update was
  ever queued, \<open>subRefsUpdates\<close> returns a pending promise: the flag is undefined, so
  the promise is not resolved at once; and the hook after a save does nothing when no
  task is queued, so it does not call the resolver either.
\<close>

theorem C8_nothing_pending_stays_pending:
  "fst (subRefsUpdates (new_inst d)) = 0 \<and>
   promises (snd (subRefsUpdates (new_inst d))) = [Pending] \<and>
   post_save M ms ops (snd (subRefsUpdates (new_inst d))) db =
     (Inr (), snd (subRefsUpdates (new_inst d)), db)"
  by (simp add: subRefsUpdates_def new_inst_def post_save_def Let_def)

section \<open>Waiters of a batch\<close>

lemma length_settle [simp]: "length (settle st p ps) = length ps"
  by (simp add: settle_def)

lemma length_fold_settle [simp]: "length (fold (settle st) c ps) = length ps"
  by (induction c arbitrary: ps) simp_all

lemma settle_settled: "ps ! q \<noteq> Pending \<Longrightarrow> settle st p ps ! q = ps ! q"
  by (simp add: settle_def nth_list_update)

lemma fold_settle_settled: "ps ! q \<noteq> Pending \<Longrightarrow> fold (settle st) c ps ! q = ps ! q"
  by (induction c arbitrary: ps) (simp_all add: settle_settled)

lemma settle_other: "q \<noteq> p \<Longrightarrow> settle st p ps ! q = ps ! q"
  by (simp add: settle_def)

lemma fold_settle_member:
  assumes "p \<in> set c" and "p < length ps" and "ps ! p = Pending" and "st \<noteq> Pending"
  shows "fold (settle st) c ps ! p = st"
  using assms
proof (induction c arbitrary: ps)
  case Nil
  then show ?case by simp
next
  case (Cons x c)
  show ?case
  proof (cases "x = p")
    case True
    with Cons.prems have "settle st x ps ! p = st" by (simp add: settle_def)
    with Cons.prems(4) have "fold (settle st) c (settle st x ps) ! p = st"
      by (simp add: fold_settle_settled)
    then show ?thesis by simp
  next
    case False
    with Cons.prems have "p \<in> set c" and "settle st x ps ! p = Pending"
      by (simp_all add: settle_other)
    with Cons.IH [of "settle st x ps"] Cons.prems show ?thesis by simp
  qed
qed

lemma fold_settle_not_member:
  "p \<notin> set c \<Longrightarrow> fold (settle st) c ps ! p = ps ! p"
  by (induction c arbitrary: ps) (simp_all add: settle_other)

text \<open>
  When the flag says the batch has finished, the promise \<open>subRefsUpdates\<close> returns is
  resolved at once.
\<close>

lemma subRefsUpdates_finished:
  assumes "subRefUpdatedAfterSave this = Some True"
  shows "promises (snd (subRefsUpdates this)) ! fst (subRefsUpdates this) = Resolved"
  using assms by (simp add: subRefsUpdates_def Let_def settle_def)

text \<open>Otherwise it is pending, and the other promises are as they were.\<close>

lemma subRefsUpdates_pending:
  assumes "subRefUpdatedAfterSave this \<noteq> Some True"
  shows "promises (snd (subRefsUpdates this)) = promises this @ [Pending]"
    and "fst (subRefsUpdates this) = length (promises this)"
  using assms by (simp_all add: subRefsUpdates_def Let_def)

lemma waiters_chained_new: "waiters_chained (new_inst d)"
  by (simp add: waiters_chained_def new_inst_def)

lemma waiters_chained_subRefsUpdates:
  assumes "waiters_chained this"
  shows "waiters_chained (snd (subRefsUpdates this))"
proof -
  have "p \<in> set (chain_of (subRefUpdateAfterSaveResolver (snd (subRefsUpdates this)))) \<and>
        p \<in> set (chain_of (subRefUpdateAfterSaveRejecter (snd (subRefsUpdates this))))"
    if p: "p < length (promises (snd (subRefsUpdates this)))"
      and pend: "promises (snd (subRefsUpdates this)) ! p = Pending" for p
  proof (cases "p = length (promises this)")
    case True
    then show ?thesis
      by (simp add: subRefsUpdates_def Let_def chain_of_def)
  next
    case False
    with p have lt: "p < length (promises this)"
      by (simp add: subRefsUpdates_def Let_def split: if_splits)
    with pend have "promises this ! p = Pending"
      by (simp add: subRefsUpdates_def Let_def nth_append settle_other split: if_splits)
    with assms lt have "p \<in> set (chain_of (subRefUpdateAfterSaveResolver this)) \<and>
        p \<in> set (chain_of (subRefUpdateAfterSaveRejecter this))"
      by (simp add: waiters_chained_def)
    then show ?thesis
      by (simp add: subRefsUpdates_def Let_def chain_of_def split: option.splits)
  qed
  then show ?thesis by (simp add: waiters_chained_def)
qed

text \<open>
  When the batch ends, every waiter is settled with its result: a promise that was
  pending is resolved on success and rejected with the error of the batch on failure.
\<close>

lemma post_save_finish_settles:
  assumes "waiters_chained this" and "p < length (promises this)"
    and "promises this ! p = Pending"
  shows "promises (snd (post_save_finish (Inr ()) this)) ! p = Resolved"
    and "promises (snd (post_save_finish (Inl e) this)) ! p = Rejected e"
proof -
  from assms have r: "p \<in> set (chain_of (subRefUpdateAfterSaveResolver this))"
    and j: "p \<in> set (chain_of (subRefUpdateAfterSaveRejecter this))"
    by (simp_all add: waiters_chained_def)
  from r obtain c where c: "subRefUpdateAfterSaveResolver this = Some c" "p \<in> set c"
    by (cases "subRefUpdateAfterSaveResolver this") (simp_all add: chain_of_def)
  from j obtain c' where c': "subRefUpdateAfterSaveRejecter this = Some c'" "p \<in> set c'"
    by (cases "subRefUpdateAfterSaveRejecter this") (simp_all add: chain_of_def)
  show "promises (snd (post_save_finish (Inr ()) this)) ! p = Resolved"
    using c assms(2,3) by (simp add: post_save_finish_def call_chain_def fold_settle_member)
  show "promises (snd (post_save_finish (Inl e) this)) ! p = Rejected e"
    using c' assms(2,3) by (simp add: post_save_finish_def call_chain_def fold_settle_member)
qed

lemma post_save_finish_flag:
  "subRefUpdatedAfterSave (snd (post_save_finish r this)) = Some True \<and>
   subRefUpdateAfterSave (snd (post_save_finish r this)) = None"
  by (simp add: post_save_finish_def split: sum.splits)

section \<open>The cascade is transitive\<close>

lemma sub_db_refl: "sub_db s s"
  by (simp add: sub_db_def)

lemma sub_db_trans: "sub_db s2 s1 \<Longrightarrow> sub_db s1 s \<Longrightarrow> sub_db s2 s"
  by (auto simp: sub_db_def)

lemma absent_mono: "absent x s \<Longrightarrow> sub_db s' s \<Longrightarrow> absent x s'"
  by (auto simp: absent_def sub_db_def)

lemma sub_db_remove_doc: "sub_db (remove_doc x s) s"
  by (auto simp: sub_db_def remove_doc_def)

lemma absent_remove_doc: "absent x (remove_doc x s)"
  by (simp add: absent_def remove_doc_def)

lemma promise_all_success:
  assumes "promise_all (t # ts) s = (Inr (), s')"
  shows "\<exists>s1. t s = (Inr (), s1) \<and> promise_all ts s1 = (Inr (), s')"
proof -
  obtain r s1 where t: "t s = (r, s1)" by (cases "t s")
  obtain r2 s2 where ts: "promise_all ts s1 = (r2, s2)" by (cases "promise_all ts s1")
  from assms t ts have "r = Inr ()" and "r2 = Inr ()" and "s2 = s'"
    by (auto split: sum.splits)
  with t ts show ?thesis by simp
qed

lemma promise_all_deletes_closed:
  assumes op: "deletes_closed rs M db0 op"
    and docs: "\<forall>x \<in> set docs. x \<in> set (db0 (doc_model x))"
    and s: "sub_db s db0" "closed rs M db0 s"
    and ok: "promise_all (map op docs) s = (Inr (), s')"
  shows "sub_db s' s \<and> closed rs M db0 s' \<and> (\<forall>x \<in> set docs. absent x s')"
  using docs s ok
proof (induction docs arbitrary: s)
  case Nil
  then show ?case by (simp add: sub_db_refl)
next
  case (Cons x docs)
  from Cons.prems(4) obtain s1 where x: "op x s = (Inr (), s1)"
    and rest: "promise_all (map op docs) s1 = (Inr (), s')"
    using promise_all_success [of "op x" "map op docs" s s'] by auto
  from op Cons.prems x have 1: "sub_db s1 s" "closed rs M db0 s1" "absent x s1"
    unfolding deletes_closed_def by (metis list.set_intros(1))+
  from 1(1) Cons.prems(2) have "sub_db s1 db0" by (rule sub_db_trans)
  with Cons.IH [of s1] Cons.prems(1) 1(2) rest
  have 2: "sub_db s' s1" "closed rs M db0 s'" "\<forall>y \<in> set docs. absent y s'"
    by simp_all
  from 2(1) 1(1) have "sub_db s' s" by (rule sub_db_trans)
  moreover from 1(3) 2(1) have "absent x s'" by (rule absent_mono)
  ultimately show ?case using 2 by simp
qed

text \<open>One descriptor: a block leaves the database; a cascade removes what it selects.\<close>

lemma onDelete_one_closed:
  assumes op: "deletes_closed rs M db0 (op_deleteOne ops)"
    and wf: "wf_db db0"
    and rq: "rt_required (d_schemaType r)"
    and s: "sub_db s db0" "closed rs M db0 s"
    and ok: "onDelete_one M ms ops mn x None r s = (Inr (), s')"
  shows "sub_db s' s \<and> closed rs M db0 s' \<and>
         (rt_cascade (d_schemaType r) \<longrightarrow>
            (\<forall>y. selects M mn r x y \<and> y \<in> set (db0 (doc_model y)) \<longrightarrow> absent y s'))"
proof -
  from ok obtain so sr vs where so: "rt_options (d_schemaType r) = Some so"
    and sr: "subRef so = Some sr"
    and vs: "getReferencedValues (drop (length mn + 1) sr) x = Inr vs"
    and c: "onDeleteConditions M ms ops (d_schemaType r) (d_modelName r) (d_path r) mn
              (drop (length mn + 1) sr) vs (boundRefValueOf so x) None s = (Inr (), s')"
    by (auto simp: onDelete_one_def Let_def split: option.splits sum.splits)
  let ?q = "getFindQueryObjectFor (d_modelName r) (d_path r) vs (boundRefValueOf so x)"
  show ?thesis
  proof (cases "rt_cascade (d_schemaType r)")
    case False
    with rq c have "onDeleteBlock M (d_modelName r) (d_path r) mn (drop (length mn + 1) sr) vs
                      (boundRefValueOf so x) None s = (Inr (), s')"
      by (simp add: onDeleteConditions_def)
    with onDeleteBlock_db [of M "d_modelName r" "d_path r" mn "drop (length mn + 1) sr" vs
        "boundRefValueOf so x" None s]
    have "s' = s" by simp
    with s False show ?thesis by (simp add: sub_db_refl)
  next
    case True
    let ?docs = "filter (query_matches M ?q) (s (d_modelName r))"
    from rq True c have p: "promise_all (map (op_deleteOne ops) ?docs) s = (Inr (), s')"
      by (simp add: onDeleteConditions_def onDeleteCascade_def find_docs_def
          ctx_softDelete_def Let_def)
    have in0: "\<forall>y \<in> set ?docs. y \<in> set (db0 (doc_model y))"
    proof
      fix y assume "y \<in> set ?docs"
      then have "y \<in> set (s (d_modelName r))" by simp
      with s(1) have y0: "y \<in> set (db0 (d_modelName r))" by (auto simp: sub_db_def)
      with wf have "doc_model y = d_modelName r" by (auto simp: wf_db_def)
      with y0 show "y \<in> set (db0 (doc_model y))" by simp
    qed
    from promise_all_deletes_closed [OF op in0 s p]
    have res: "sub_db s' s" "closed rs M db0 s'" "\<forall>y \<in> set ?docs. absent y s'"
      by simp_all
    have "absent y s'" if y: "selects M mn r x y" "y \<in> set (db0 (doc_model y))" for y
    proof -
      from y(1) so sr vs have m: "doc_model y = d_modelName r" and q: "query_matches M ?q y"
        by (auto simp: selects_def)
      show ?thesis
      proof (cases "y \<in> set (s (d_modelName r))")
        case True
        with q have "y \<in> set ?docs" by simp
        with res(3) show ?thesis by blast
      next
        case False
        with m have "absent y s" by (simp add: absent_def)
        then show ?thesis using res(1) by (rule absent_mono)
      qed
    qed
    with res show ?thesis by blast
  qed
qed

lemma onDelete_loop_closed:
  assumes op: "deletes_closed rs M db0 (op_deleteOne ops)"
    and wf: "wf_db db0"
    and rq: "\<forall>r \<in> set ds. rt_required (d_schemaType r)"
    and s: "sub_db s db0" "closed rs M db0 s"
    and ok: "onDelete_loop M ms ops mn x None ds s = (Inr (), s')"
  shows "sub_db s' s \<and> closed rs M db0 s' \<and>
         (\<forall>r \<in> set ds. rt_cascade (d_schemaType r) \<longrightarrow>
            (\<forall>y. selects M mn r x y \<and> y \<in> set (db0 (doc_model y)) \<longrightarrow> absent y s'))"
  using rq s ok
proof (induction ds arbitrary: s)
  case Nil
  then show ?case by (simp add: sub_db_refl)
next
  case (Cons r ds)
  from Cons.prems(4) obtain s1 where r: "onDelete_one M ms ops mn x None r s = (Inr (), s1)"
    and rest: "onDelete_loop M ms ops mn x None ds s1 = (Inr (), s')"
    by (auto split: prod.splits sum.splits)
  from Cons.prems(1) have rqr: "rt_required (d_schemaType r)" by simp
  from onDelete_one_closed [OF op wf rqr Cons.prems(2,3) r]
  have 1: "sub_db s1 s" "closed rs M db0 s1"
    "rt_cascade (d_schemaType r) \<longrightarrow>
       (\<forall>y. selects M mn r x y \<and> y \<in> set (db0 (doc_model y)) \<longrightarrow> absent y s1)"
    by simp_all
  from 1(1) Cons.prems(2) have "sub_db s1 db0" by (rule sub_db_trans)
  with Cons.IH [of s1] Cons.prems(1) 1(2) rest
  have 2: "sub_db s' s1" "closed rs M db0 s'"
    "\<forall>r \<in> set ds. rt_cascade (d_schemaType r) \<longrightarrow>
       (\<forall>y. selects M mn r x y \<and> y \<in> set (db0 (doc_model y)) \<longrightarrow> absent y s')"
    by simp_all
  from 2(1) 1(1) have "sub_db s' s" by (rule sub_db_trans)
  moreover from 1(3) 2(1) have "rt_cascade (d_schemaType r) \<longrightarrow>
       (\<forall>y. selects M mn r x y \<and> y \<in> set (db0 (doc_model y)) \<longrightarrow> absent y s')"
    using absent_mono by blast
  ultimately show ?case using 2 by simp
qed

lemma closed_remove_doc:
  assumes wf: "wf_db db0" and x0: "x \<in> set (db0 (doc_model x))"
    and s: "sub_db s db0" "closed rs M db0 s"
    and succ: "\<forall>y. cascades_to rs M x y \<and> y \<in> set (db0 (doc_model y)) \<longrightarrow> absent y s"
  shows "closed rs M db0 (remove_doc x s)"
  unfolding closed_def
proof (intro allI impI)
  fix z y
  assume a: "z \<in> set (db0 (doc_model z)) \<and> absent z (remove_doc x s) \<and>
             cascades_to rs M z y \<and> y \<in> set (db0 (doc_model y))"
  have "absent y s"
  proof (cases "absent z s")
    case True
    with a s(2) show ?thesis unfolding closed_def by blast
  next
    case False
    then have zs: "z \<in> set (s (doc_model z))" by (simp add: absent_def)
    with a have "doc_model z = doc_model x \<and> doc_id z = doc_id x"
      by (auto simp: absent_def remove_doc_def split: if_splits)
    moreover from wf have "inj_on doc_id (set (db0 (doc_model x)))" by (simp add: wf_db_def)
    ultimately have "z = x" using a x0 by (auto dest: inj_onD)
    with a succ show ?thesis by blast
  qed
  then show "absent y (remove_doc x s)"
    using sub_db_remove_doc by (rule absent_mono)
qed

lemma deleteOne_deletes_closed:
  assumes wf: "wf_db db0" and rq: "all_required rs"
  shows "deletes_closed rs M db0 (op_deleteOne (doc_ops rs M n))"
proof (induction n)
  case 0
  then show ?case by (simp add: deletes_closed_def)
next
  case (Suc n)
  show ?case
    unfolding deletes_closed_def
  proof (intro allI impI)
    fix x s s'
    assume a: "x \<in> set (db0 (doc_model x)) \<and> sub_db s db0 \<and> closed rs M db0 s \<and>
               op_deleteOne (doc_ops rs M (Suc n)) x s = (Inr (), s')"
    then have x0: "x \<in> set (db0 (doc_model x))" and s: "sub_db s db0" "closed rs M db0 s"
      and ok: "op_deleteOne (doc_ops rs M (Suc n)) x s = (Inr (), s')"
      by simp_all
    show "sub_db s' s \<and> closed rs M db0 s' \<and> absent x s'"
    proof (cases "doc_model x \<in> set (hooked rs)")
      case False
      with ok have s': "s' = remove_doc x s" by simp
      from False have "\<forall>y. cascades_to rs M x y \<and> y \<in> set (db0 (doc_model y)) \<longrightarrow> absent y s"
        by (simp add: cascades_to_def)
      with closed_remove_doc [OF wf x0 s] s' show ?thesis
        by (simp add: sub_db_remove_doc absent_remove_doc)
    next
      case True
      with ok obtain s1 where od: "onDelete rs M (doc_ops rs M n) (doc_model x) x None s = (Inr (), s1)"
        and s': "s' = remove_doc x s1"
        by (auto split: prod.splits sum.splits)
      from od obtain ds where ds: "refs rs (doc_model x) = Some ds"
        and loop: "onDelete_loop M (compiled rs) (doc_ops rs M n) (doc_model x) x None ds s
                     = (Inr (), s1)"
        by (auto simp: onDelete_def split: option.splits)
      from rq ds have rqs: "\<forall>r \<in> set ds. rt_required (d_schemaType r)"
        by (auto simp: all_required_def)
      from onDelete_loop_closed [OF Suc wf rqs s loop]
      have 1: "sub_db s1 s" "closed rs M db0 s1"
        "\<forall>r \<in> set ds. rt_cascade (d_schemaType r) \<longrightarrow>
           (\<forall>y. selects M (doc_model x) r x y \<and> y \<in> set (db0 (doc_model y)) \<longrightarrow> absent y s1)"
        by simp_all
      from 1(1) s(1) have s10: "sub_db s1 db0" by (rule sub_db_trans)
      from 1(3) ds have "\<forall>y. cascades_to rs M x y \<and> y \<in> set (db0 (doc_model y)) \<longrightarrow> absent y s1"
        by (auto simp: cascades_to_def)
      from closed_remove_doc [OF wf x0 s10 1(2) this] have "closed rs M db0 s'"
        by (simp add: s')
      moreover have "sub_db s' s"
        using sub_db_remove_doc 1(1) unfolding s' by (rule sub_db_trans)
      ultimately show ?thesis by (simp add: s' absent_remove_doc)
    qed
  qed
qed

text \<open>
  The transitive cascade. In a registry whose descriptors are all required, and a
  database whose documents lie in the collection of their model with distinct ids, a
  hard delete of a document that succeeds removes the document and every document of
  the database that it reaches through cascading descriptors, at any depth.
\<close>

theorem cascade_is_transitive:
  assumes wf: "wf_db db0" and rq: "all_required rs"
    and d: "d \<in> set (db0 (doc_model d))"
    and ok: "op_deleteOne (doc_ops rs M n) d db0 = (Inr (), db')"
    and reach: "(\<lambda>a b. cascades_to rs M a b \<and> b \<in> set (db0 (doc_model b)))\<^sup>*\<^sup>* d y"
  shows "absent y db'"
proof -
  have c0: "closed rs M db0 db0" by (auto simp: closed_def absent_def)
  from deleteOne_deletes_closed [OF wf rq, of M n] d sub_db_refl [of db0] c0 ok
  have cl: "closed rs M db0 db'" and ad: "absent d db'"
    unfolding deletes_closed_def by blast+
  from reach have "y \<in> set (db0 (doc_model y)) \<and> absent y db'"
  proof (induction rule: rtranclp_induct)
    case base
    with d ad show ?case by simp
  next
    case (step y z)
    with cl show ?case unfolding closed_def by blast
  qed
  then show ?thesis by simp
qed

lemma chain_refs:
  "refs chain_reg =
     (\<lambda>k. None)(''Person'' \<mapsto>
        [\<lparr>d_modelName = ''Message'', d_path = ''contact'',
          d_schemaType = of_stype (ref_field True True)\<rparr>],
       ''Receipt'' \<mapsto> [],
       ''Message'' \<mapsto>
        [\<lparr>d_modelName = ''Receipt'', d_path = ''part'',
          d_schemaType =
            \<lparr>rt_options = Some \<lparr>subRef = Some ''Message.parts'', boundTo = None\<rparr>,
             rt_required = True, rt_cascade = True\<rparr>\<rparr>])"
  by (simp add: chain_reg_def consistentModel_def plugin_def empty_reg_def
      chain_person_schema_def chain_message_schema_def chain_receipt_schema_def
      plain_type_def ref_field_def truthy_str_def key_of_def getRootRef_def refs_or_empty_def
      setValidator_def of_stype_def mongoose_model_def schema_path_def Let_def)

lemma chain_all_required: "all_required chain_reg"
  by (auto simp: all_required_def chain_refs of_stype_def ref_field_def split: if_splits)

lemma chain_wf: "wf_db chain_db"
  by (auto simp: wf_db_def chain_db_def chain_person_def chain_message_def chain_receipt_def
      inj_on_def)

lemma chain_person_to_message:
  "cascades_to chain_reg example_store chain_person (chain_message 10 1 100)"
  by (simp add: cascades_to_def chain_reg_value selects_def of_stype_def ref_field_def
      chain_person_def chain_message_def getReferencedValues_def get_def boundRefValueOf_def
      getFindQueryObjectFor_def example_store_def)

lemma chain_message_to_receipt:
  "cascades_to chain_reg example_store (chain_message 10 1 100) (chain_receipt 20 100)"
  by (simp add: cascades_to_def chain_reg_value selects_def
      chain_receipt_def chain_message_def getReferencedValues_def get_def boundRefValueOf_def
      getFindQueryObjectFor_def example_store_def)

text \<open>
  The chain of the examples: the receipt 20 is reached from the person through the
  message 10, and it is gone after the person is deleted.
\<close>

lemma chain_receipt_absent:
  "absent (chain_receipt 20 100)
     (snd (op_deleteOne (doc_ops chain_reg example_store (Suc (Suc (Suc 0)))) chain_person
             chain_db))"
proof -
  let ?R = "\<lambda>a b. cascades_to chain_reg example_store a b \<and> b \<in> set (chain_db (doc_model b))"
  have d: "chain_person \<in> set (chain_db (doc_model chain_person))"
    by (simp add: chain_db_def chain_person_def)
  have 1: "?R chain_person (chain_message 10 1 100)"
    using chain_person_to_message by (simp add: chain_db_def chain_message_def)
  have 2: "?R (chain_message 10 1 100) (chain_receipt 20 100)"
    using chain_message_to_receipt by (simp add: chain_db_def chain_receipt_def)
  from 1 have "?R\<^sup>*\<^sup>* chain_person (chain_message 10 1 100)"
    by (rule r_into_rtranclp)
  then have reach: "?R\<^sup>*\<^sup>* chain_person (chain_receipt 20 100)"
    using 2 by (rule rtranclp.rtrancl_into_rtrancl)
  from cascade_is_transitive [OF chain_wf chain_all_required d chain_delete_person reach]
  show ?thesis by (simp only: chain_delete_person snd_conv)
qed

text \<open>
  The same chain under a soft delete: the person, the message that references it and
  the receipt that references the message are flagged; restoring the person restores
  them.
\<close>

lemma chain_soft_cascade_value:
  "onDeleteConditions example_store (compiled chain_reg)
       (doc_ops chain_reg example_store (Suc (Suc 0)))
       cascade_type ''Message'' ''contact'' ''Person'' ''contacts'' [Oid 1, Oid 2] JNull
       (Some \<lparr>softDelete = True, deleted = flag\<rparr>)
       (chain_db(''Message'' := [(chain_message 10 1 100)\<lparr>doc_deleted := f1\<rparr>,
                                chain_message 11 5 110],
                 ''Receipt'' := [(chain_receipt 20 100)\<lparr>doc_deleted := f2\<rparr>,
                                chain_receipt 21 110])) =
     (Inr (), chain_db(''Receipt'' := [(chain_receipt 20 100)\<lparr>doc_deleted := flag\<rparr>,
                                       chain_receipt 21 110],
                       ''Message'' := [(chain_message 10 1 100)\<lparr>doc_deleted := flag\<rparr>,
                                       chain_message 11 5 110]))"
  by (simp add: onDeleteConditions_def onDeleteCascade_def cascade_type_def
      getFindQueryObjectFor_def find_docs_def ctx_softDelete_def ctx_deleted_def
      example_store_def chain_db_def chain_message_def chain_receipt_def get_def
      onDelete_def onDelete_one_def chain_reg_value getReferencedValues_def
      preSoftDelete_hook_def store_deleted_def
      boundRefValueOf_def of_stype_def ref_field_def Let_def fun_upd_twist)

lemma ctx_norm_simps:
  "ctx_softDelete (ctx_norm c) = ctx_softDelete c"
  "ctx_deleted (ctx_norm c) = (ctx_softDelete c \<and> ctx_deleted c)"
  "ctx_norm (ctx_norm c) = ctx_norm c"
  by (simp_all add: ctx_norm_def ctx_softDelete_def ctx_deleted_def)

lemma store_deleted_flag:
  "store_deleted (d\<lparr>doc_deleted := f\<rparr>) g s = store_deleted d g s"
  by (simp add: store_deleted_def)

lemma removal_Suc:
  assumes "ctx_norm c = c"
  shows "removal (doc_ops rs M (Suc n)) c d s =
     (if doc_model d \<in> set (hooked rs)
      then (case onDelete rs M (doc_ops rs M n) (doc_model d) (hook_doc c d) c s of
              (Inl e, s1) \<Rightarrow> (Inl e, s1)
            | (Inr u, s1) \<Rightarrow> (Inr (), finish c d s1))
      else (Inr (), finish c d s))"
proof (cases "ctx_softDelete c")
  case False
  with assms have "c = None" by (simp add: ctx_norm_def)
  then show ?thesis
    by (auto simp: removal_def hook_doc_def finish_def ctx_softDelete_def
        split: prod.splits sum.splits)
next
  case True
  with assms have c: "c = Some \<lparr>softDelete = True, deleted = ctx_deleted c\<rparr>"
    by (simp add: ctx_norm_def)
  obtain r s1 where od: "onDelete rs M (doc_ops rs M n) (doc_model d)
      (d\<lparr>doc_deleted := ctx_deleted c\<rparr>) c s = (r, s1)"
    by (cases "onDelete rs M (doc_ops rs M n) (doc_model d)
      (d\<lparr>doc_deleted := ctx_deleted c\<rparr>) c s")
  then have od': "onDelete rs M (doc_ops rs M n) (doc_model d)
      (d\<lparr>doc_deleted := ctx_deleted c\<rparr>)
      (Some \<lparr>softDelete = True, deleted = ctx_deleted c\<rparr>) s = (r, s1)"
    using c by simp
  show ?thesis
    using True od od'
    by (cases r)
       (simp_all add: removal_def hook_doc_def finish_def preSoftDelete_hook_def
          store_deleted_flag)
qed

lemma cascade_removal:
  "onDeleteCascade M ops modelRef pathRef modelSubRef pathSubRef vs b c s =
     promise_all
       (map (removal ops c)
          (filter (query_matches M (getFindQueryObjectFor modelRef pathRef vs b)) (s modelRef)))
       s"
proof -
  have "removal ops c = (if ctx_softDelete c then (\<lambda>d. op_softDelete ops d (ctx_deleted c))
                         else (\<lambda>d. op_deleteOne ops d))"
    by (auto simp: removal_def)
  then show ?thesis
    by (simp add: onDeleteCascade_def find_docs_def Let_def)
qed

lemma promise_all_agree:
  assumes ops: "\<And>y t. y \<in> set docs \<Longrightarrow> Inv t \<Longrightarrow>
                 opA y t = opB y t \<and> Inv (snd (opB y t)) \<and> fst (opB y t) \<noteq> Inl FuelExhausted"
    and s: "Inv s"
  shows "promise_all (map opA docs) s = promise_all (map opB docs) s \<and>
         Inv (snd (promise_all (map opB docs) s)) \<and>
         fst (promise_all (map opB docs) s) \<noteq> Inl FuelExhausted"
  using ops s
proof (induction docs arbitrary: s)
  case Nil
  then show ?case by simp
next
  case (Cons x docs)
  have x: "opA x s = opB x s" "Inv (snd (opB x s))" "fst (opB x s) \<noteq> Inl FuelExhausted"
    using Cons.prems by simp_all
  have IH: "promise_all (map opA docs) (snd (opB x s)) = promise_all (map opB docs) (snd (opB x s)) \<and>
         Inv (snd (promise_all (map opB docs) (snd (opB x s)))) \<and>
         fst (promise_all (map opB docs) (snd (opB x s))) \<noteq> Inl FuelExhausted"
    using Cons.prems(1) x(2) by (intro Cons.IH) simp_all
  show ?case
    using x IH
    by (auto simp add: promise_all_Cons simp del: promise_all.simps(2) split: sum.splits)
qed

lemma onDeleteConditions_agree:
  assumes nosetnull: "rt_required st \<or> ctx_softDelete c"
    and s: "Inv s"
    and ops: "\<And>y t. rt_required st \<Longrightarrow> rt_cascade st \<Longrightarrow> y \<in> set (s modelRef) \<Longrightarrow>
                 query_matches M (getFindQueryObjectFor modelRef pathRef vs b) y \<Longrightarrow> Inv t \<Longrightarrow>
                 removal A c y t = removal B c y t \<and> Inv (snd (removal B c y t)) \<and>
                 fst (removal B c y t) \<noteq> Inl FuelExhausted"
  shows "onDeleteConditions M ms A st modelRef pathRef modelSubRef pathSubRef vs b c s =
         onDeleteConditions M ms B st modelRef pathRef modelSubRef pathSubRef vs b c s \<and>
         Inv (snd (onDeleteConditions M ms B st modelRef pathRef modelSubRef pathSubRef vs b c s)) \<and>
         fst (onDeleteConditions M ms B st modelRef pathRef modelSubRef pathSubRef vs b c s)
           \<noteq> Inl FuelExhausted"
proof (cases "rt_required st")
  case False
  with nosetnull have "ctx_softDelete c" by simp
  with False s show ?thesis by (simp add: onDeleteConditions_def onDeleteSetNull_def)
next
  case True
  show ?thesis
  proof (cases "rt_cascade st")
    case False
    with True s show ?thesis
      by (simp add: onDeleteConditions_def onDeleteBlock_def split: option.splits)
  next
    case c: True
    let ?docs = "filter (query_matches M (getFindQueryObjectFor modelRef pathRef vs b)) (s modelRef)"
    have "promise_all (map (removal A c) ?docs) s = promise_all (map (removal B c) ?docs) s \<and>
         Inv (snd (promise_all (map (removal B c) ?docs) s)) \<and>
         fst (promise_all (map (removal B c) ?docs) s) \<noteq> Inl FuelExhausted"
      using s by (intro promise_all_agree ops [OF True c]) simp_all
    with True c show ?thesis
      by (simp add: onDeleteConditions_def cascade_removal)
  qed
qed

lemma onDelete_one_agree:
  assumes nosetnull: "rt_required (d_schemaType r) \<or> ctx_softDelete c"
    and s: "Inv s"
    and inv_model: "\<And>t m y. Inv t \<Longrightarrow> y \<in> set (t m) \<Longrightarrow> doc_model y = m"
    and good: "\<And>y. rt_required (d_schemaType r) \<Longrightarrow> rt_cascade (d_schemaType r) \<Longrightarrow>
                 selects M mn r x y \<Longrightarrow> Good y"
    and ops: "\<And>y t. Good y \<Longrightarrow> Inv t \<Longrightarrow>
                 removal A c y t = removal B c y t \<and> Inv (snd (removal B c y t)) \<and>
                 fst (removal B c y t) \<noteq> Inl FuelExhausted"
  shows "onDelete_one M ms A mn x c r s = onDelete_one M ms B mn x c r s \<and>
         Inv (snd (onDelete_one M ms B mn x c r s)) \<and>
         fst (onDelete_one M ms B mn x c r s) \<noteq> Inl FuelExhausted"
proof (cases "rt_options (d_schemaType r)")
  case None
  with s show ?thesis by (simp add: onDelete_one_def)
next
  case (Some so)
  show ?thesis
  proof (cases "subRef so")
    case None
    with Some s show ?thesis by (simp add: onDelete_one_def)
  next
    case sr: (Some sr)
    show ?thesis
    proof (cases "getReferencedValues (drop (length mn + 1) sr) x")
      case (Inl e)
      then have "e = TypeError"
        by (auto simp: getReferencedValues_def split: jsval.splits)
      with Inl Some sr s show ?thesis by (simp add: onDelete_one_def)
    next
      case (Inr vs)
      have "Good y" if "rt_required (d_schemaType r)" "rt_cascade (d_schemaType r)"
        "y \<in> set (s (d_modelName r))"
        "query_matches M (getFindQueryObjectFor (d_modelName r) (d_path r) vs
           (boundRefValueOf so x)) y" for y
      proof -
        from s that(3) have "doc_model y = d_modelName r" by (rule inv_model)
        with that Some sr Inr have "selects M mn r x y" by (auto simp: selects_def)
        with that(1,2) show ?thesis by (rule good)
      qed
      then have "onDeleteConditions M ms A (d_schemaType r) (d_modelName r) (d_path r) mn
                   (drop (length mn + 1) sr) vs (boundRefValueOf so x) c s =
         onDeleteConditions M ms B (d_schemaType r) (d_modelName r) (d_path r) mn
                   (drop (length mn + 1) sr) vs (boundRefValueOf so x) c s \<and>
         Inv (snd (onDeleteConditions M ms B (d_schemaType r) (d_modelName r) (d_path r) mn
                   (drop (length mn + 1) sr) vs (boundRefValueOf so x) c s)) \<and>
         fst (onDeleteConditions M ms B (d_schemaType r) (d_modelName r) (d_path r) mn
                   (drop (length mn + 1) sr) vs (boundRefValueOf so x) c s)
           \<noteq> Inl FuelExhausted"
        using nosetnull s ops by (intro onDeleteConditions_agree) blast+
      with Some sr Inr show ?thesis by (simp add: onDelete_one_def)
    qed
  qed
qed

lemma onDelete_loop_agree:
  assumes nosetnull: "\<forall>r \<in> set ds. rt_required (d_schemaType r) \<or> ctx_softDelete c"
    and s: "Inv s"
    and inv_model: "\<And>t m y. Inv t \<Longrightarrow> y \<in> set (t m) \<Longrightarrow> doc_model y = m"
    and good: "\<And>r y. r \<in> set ds \<Longrightarrow> rt_required (d_schemaType r) \<Longrightarrow>
                 rt_cascade (d_schemaType r) \<Longrightarrow> selects M mn r x y \<Longrightarrow> Good y"
    and ops: "\<And>y t. Good y \<Longrightarrow> Inv t \<Longrightarrow>
                 removal A c y t = removal B c y t \<and> Inv (snd (removal B c y t)) \<and>
                 fst (removal B c y t) \<noteq> Inl FuelExhausted"
  shows "onDelete_loop M ms A mn x c ds s = onDelete_loop M ms B mn x c ds s \<and>
         Inv (snd (onDelete_loop M ms B mn x c ds s)) \<and>
         fst (onDelete_loop M ms B mn x c ds s) \<noteq> Inl FuelExhausted"
  using nosetnull s good
proof (induction ds arbitrary: s)
  case Nil
  then show ?case by simp
next
  case (Cons r ds)
  have one: "onDelete_one M ms A mn x c r s = onDelete_one M ms B mn x c r s \<and>
         Inv (snd (onDelete_one M ms B mn x c r s)) \<and>
         fst (onDelete_one M ms B mn x c r s) \<noteq> Inl FuelExhausted"
  proof (rule onDelete_one_agree [where Good = Good])
    show "rt_required (d_schemaType r) \<or> ctx_softDelete c" using Cons.prems(1) by auto
    show "Inv s" by (rule Cons.prems(2))
    show "\<And>t m y. Inv t \<Longrightarrow> y \<in> set (t m) \<Longrightarrow> doc_model y = m" by (rule inv_model)
    show "\<And>y. rt_required (d_schemaType r) \<Longrightarrow> rt_cascade (d_schemaType r) \<Longrightarrow>
            selects M mn r x y \<Longrightarrow> Good y"
      using Cons.prems(3) by (meson list.set_intros(1))
    show "\<And>y t. Good y \<Longrightarrow> Inv t \<Longrightarrow>
                 removal A c y t = removal B c y t \<and> Inv (snd (removal B c y t)) \<and>
                 fst (removal B c y t) \<noteq> Inl FuelExhausted" by (rule ops)
  qed
  obtain res s1 where r: "onDelete_one M ms B mn x c r s = (res, s1)"
    by (cases "onDelete_one M ms B mn x c r s")
  with one have s1: "Inv s1" and nf: "res \<noteq> Inl FuelExhausted" by simp_all
  have IH: "onDelete_loop M ms A mn x c ds s1 = onDelete_loop M ms B mn x c ds s1 \<and>
         Inv (snd (onDelete_loop M ms B mn x c ds s1)) \<and>
         fst (onDelete_loop M ms B mn x c ds s1) \<noteq> Inl FuelExhausted"
  proof (rule Cons.IH)
    show "\<forall>r \<in> set ds. rt_required (d_schemaType r) \<or> ctx_softDelete c"
      using Cons.prems(1) by auto
    show "Inv s1" by (rule s1)
    show "\<And>r y. r \<in> set ds \<Longrightarrow> rt_required (d_schemaType r) \<Longrightarrow>
            rt_cascade (d_schemaType r) \<Longrightarrow> selects M mn r x y \<Longrightarrow> Good y"
      using Cons.prems(3) by (meson list.set_intros(2))
  qed
  from one r have rA: "onDelete_one M ms A mn x c r s = (res, s1)" by simp
  show ?case
    using r rA s1 nf IH by (cases res) simp_all
qed

lemma onDelete_agree:
  assumes nosetnull: "\<And>ds. refs rs mn = Some ds \<Longrightarrow>
                        \<forall>r \<in> set ds. rt_required (d_schemaType r) \<or> ctx_softDelete c"
    and s: "Inv s"
    and inv_model: "\<And>t m y. Inv t \<Longrightarrow> y \<in> set (t m) \<Longrightarrow> doc_model y = m"
    and good: "\<And>ds r y. refs rs mn = Some ds \<Longrightarrow> r \<in> set ds \<Longrightarrow>
                 rt_required (d_schemaType r) \<Longrightarrow> rt_cascade (d_schemaType r) \<Longrightarrow>
                 selects M mn r x y \<Longrightarrow> Good y"
    and ops: "\<And>y t. Good y \<Longrightarrow> Inv t \<Longrightarrow>
                 removal A c y t = removal B c y t \<and> Inv (snd (removal B c y t)) \<and>
                 fst (removal B c y t) \<noteq> Inl FuelExhausted"
  shows "onDelete rs M A mn x c s = onDelete rs M B mn x c s \<and>
         Inv (snd (onDelete rs M B mn x c s)) \<and>
         fst (onDelete rs M B mn x c s) \<noteq> Inl FuelExhausted"
proof (cases "refs rs mn")
  case None
  with s show ?thesis by (simp add: onDelete_def)
next
  case (Some ds)
  have "onDelete_loop M (compiled rs) A mn x c ds s = onDelete_loop M (compiled rs) B mn x c ds s \<and>
         Inv (snd (onDelete_loop M (compiled rs) B mn x c ds s)) \<and>
         fst (onDelete_loop M (compiled rs) B mn x c ds s) \<noteq> Inl FuelExhausted"
  proof (rule onDelete_loop_agree [where Good = Good])
    show "\<forall>r \<in> set ds. rt_required (d_schemaType r) \<or> ctx_softDelete c"
      using Some by (rule nosetnull)
    show "Inv s" by (rule s)
    show "\<And>t m y. Inv t \<Longrightarrow> y \<in> set (t m) \<Longrightarrow> doc_model y = m" by (rule inv_model)
    show "\<And>r y. r \<in> set ds \<Longrightarrow> rt_required (d_schemaType r) \<Longrightarrow>
            rt_cascade (d_schemaType r) \<Longrightarrow> selects M mn r x y \<Longrightarrow> Good y"
      using Some by (rule good)
    show "\<And>y t. Good y \<Longrightarrow> Inv t \<Longrightarrow>
                 removal A c y t = removal B c y t \<and> Inv (snd (removal B c y t)) \<and>
                 fst (removal B c y t) \<noteq> Inl FuelExhausted" by (rule ops)
  qed
  with Some show ?thesis by (simp add: onDelete_def)
qed

text \<open>
  Enough fuel. When a rank decreases along every cascade, a removal with more fuel than
  the rank of its document never meets the end of the counter: its result is not
  \<open>FuelExhausted\<close>, and it is the result with any larger counter.
\<close>

lemma removal_fuel:
  assumes cn: "ctx_norm c = c"
    and rk: "ranked rs M rank"
    and rb: "ctx_softDelete c \<longrightarrow> rank_blind rank"
    and mode: "ctx_softDelete c \<or> all_required rs"
    and inv_model: "\<forall>t m y. Inv t \<and> y \<in> set (t m) \<longrightarrow> doc_model y = m"
    and inv_fin: "\<forall>t d. Inv t \<longrightarrow> Inv (finish c d t)"
  shows "rank d < n \<Longrightarrow> Inv s \<Longrightarrow>
         Inv (snd (removal (doc_ops rs M n) c d s)) \<and>
         fst (removal (doc_ops rs M n) c d s) \<noteq> Inl FuelExhausted \<and>
         (\<forall>m \<ge> n. removal (doc_ops rs M m) c d s = removal (doc_ops rs M n) c d s)"
proof (induction n arbitrary: d s)
  case 0
  then show ?case by simp
next
  case (Suc k)
  have rankh: "rank (hook_doc c d) = rank d"
    using rb by (auto simp: hook_doc_def rank_blind_def)
  show ?case
  proof (cases "doc_model d \<in> set (hooked rs)")
    case False
    have "removal (doc_ops rs M m) c d s = (Inr (), finish c d s)" if "Suc k \<le> m" for m
    proof -
      from that obtain j where "m = Suc j" by (cases m) simp_all
      with False show ?thesis by (simp add: removal_Suc [OF cn] del: doc_ops.simps)
    qed
    with Suc.prems(2) show ?thesis by (simp add: inv_fin [rule_format] del: doc_ops.simps)
  next
    case True
    have agree: "onDelete rs M (doc_ops rs M j) (doc_model d) (hook_doc c d) c s =
                 onDelete rs M (doc_ops rs M k) (doc_model d) (hook_doc c d) c s \<and>
         Inv (snd (onDelete rs M (doc_ops rs M k) (doc_model d) (hook_doc c d) c s)) \<and>
         fst (onDelete rs M (doc_ops rs M k) (doc_model d) (hook_doc c d) c s)
           \<noteq> Inl FuelExhausted" if j: "k \<le> j" for j
    proof (rule onDelete_agree [where Good = "\<lambda>y. rank y < k"])
      show "\<forall>r \<in> set ds. rt_required (d_schemaType r) \<or> ctx_softDelete c"
        if "refs rs (doc_model d) = Some ds" for ds
        using mode that by (auto simp: all_required_def)
      show "Inv s" by (rule Suc.prems(2))
      show "\<And>t m y. Inv t \<Longrightarrow> y \<in> set (t m) \<Longrightarrow> doc_model y = m"
        using inv_model by blast
      show "rank y < k"
        if "refs rs (doc_model d) = Some ds" "r \<in> set ds" "rt_required (d_schemaType r)"
          "rt_cascade (d_schemaType r)" "selects M (doc_model d) r (hook_doc c d) y" for ds r y
      proof -
        have "doc_model (hook_doc c d) = doc_model d" by (simp add: hook_doc_def)
        with that True have "cascades_to rs M (hook_doc c d) y"
          by (auto simp: cascades_to_def)
        with rk have "rank y < rank (hook_doc c d)" by (simp add: ranked_def)
        with rankh Suc.prems(1) show ?thesis by simp
      qed
      show "removal (doc_ops rs M j) c y t = removal (doc_ops rs M k) c y t \<and>
            Inv (snd (removal (doc_ops rs M k) c y t)) \<and>
            fst (removal (doc_ops rs M k) c y t) \<noteq> Inl FuelExhausted"
        if "rank y < k" "Inv t" for y t
        using Suc.IH [OF that] j by blast
    qed
    obtain res s1 where od: "onDelete rs M (doc_ops rs M k) (doc_model d) (hook_doc c d) c s
                               = (res, s1)"
      by (cases "onDelete rs M (doc_ops rs M k) (doc_model d) (hook_doc c d) c s")
    with agree [of k] have s1: "Inv s1" and nf: "res \<noteq> Inl FuelExhausted" by simp_all
    have eq: "removal (doc_ops rs M m) c d s = removal (doc_ops rs M (Suc k)) c d s"
      if "Suc k \<le> m" for m
    proof -
      from that obtain j where m: "m = Suc j" and j: "k \<le> j" by (cases m) simp_all
      from agree [OF j] show ?thesis by (simp add: m removal_Suc [OF cn] del: doc_ops.simps)
    qed
    have "Inv (snd (removal (doc_ops rs M (Suc k)) c d s)) \<and>
          fst (removal (doc_ops rs M (Suc k)) c d s) \<noteq> Inl FuelExhausted"
      using True od s1 nf
      by (cases res) (simp_all add: removal_Suc [OF cn] inv_fin [rule_format] del: doc_ops.simps)
    with eq show ?thesis by blast
  qed
qed

lemma removal_norm: "removal ops (ctx_norm c) = removal ops c"
  by (rule ext) (simp add: removal_def ctx_norm_simps)

lemma onDeleteConditions_norm:
  "onDeleteConditions M ms ops st modelRef pathRef modelSubRef pathSubRef vs b (ctx_norm c) s =
   onDeleteConditions M ms ops st modelRef pathRef modelSubRef pathSubRef vs b c s"
  by (auto simp: onDeleteConditions_def cascade_removal removal_norm onDeleteBlock_def
      onDeleteSetNull_def ctx_norm_simps)

lemma cascade_fuel:
  assumes cn: "ctx_norm c = c"
    and rk: "ranked rs M rank"
    and rb: "ctx_softDelete c \<longrightarrow> rank_blind rank"
    and mode: "ctx_softDelete c \<or> all_required rs"
    and inv_model: "\<forall>t m y. Inv t \<and> y \<in> set (t m) \<longrightarrow> doc_model y = m"
    and inv_fin: "\<forall>t d. Inv t \<longrightarrow> Inv (finish c d t)"
    and st: "rt_required st" "rt_cascade st"
    and s: "Inv s"
    and bound: "\<forall>y \<in> set (s modelRef). rank y < n"
    and m: "n \<le> m"
  shows "onDeleteConditions M ms (doc_ops rs M m) st modelRef pathRef modelSubRef pathSubRef
           vs b c s =
         onDeleteConditions M ms (doc_ops rs M n) st modelRef pathRef modelSubRef pathSubRef
           vs b c s \<and>
         Inv (snd (onDeleteConditions M ms (doc_ops rs M n) st modelRef pathRef modelSubRef
           pathSubRef vs b c s)) \<and>
         fst (onDeleteConditions M ms (doc_ops rs M n) st modelRef pathRef modelSubRef
           pathSubRef vs b c s) \<noteq> Inl FuelExhausted"
proof (rule onDeleteConditions_agree)
  show "rt_required st \<or> ctx_softDelete c" using st by simp
  show "Inv s" by (rule s)
  show "removal (doc_ops rs M m) c y t = removal (doc_ops rs M n) c y t \<and>
        Inv (snd (removal (doc_ops rs M n) c y t)) \<and>
        fst (removal (doc_ops rs M n) c y t) \<noteq> Inl FuelExhausted"
    if "y \<in> set (s modelRef)" "Inv t" for y t
  proof -
    from that(1) bound have "rank y < n" by simp
    from removal_fuel [OF cn rk rb mode inv_model inv_fin this that(2)] m
    show ?thesis by blast
  qed
qed

lemma unflag_eq:
  assumes "unflag a = unflag b"
  shows "doc_id a = doc_id b" and "doc_model a = doc_model b" and "doc_fields a = doc_fields b"
  using arg_cong [OF assms, of doc_id] arg_cong [OF assms, of doc_model]
    arg_cong [OF assms, of doc_fields]
  by (simp_all add: unflag_def)

lemma unflag_flag: "unflag (d\<lparr>doc_deleted := f\<rparr>) = unflag d"
  by (simp add: unflag_def)

lemma unflag_with_flag: "doc_deleted z = f \<Longrightarrow> unflag z = unflag y \<Longrightarrow> z = y\<lparr>doc_deleted := f\<rparr>"
  by (cases z, cases y) (simp add: unflag_def)

lemma same_docs_refl: "same_docs s s"
  by (simp add: same_docs_def)

lemma same_docs_member:
  assumes "same_docs s db0" and "y0 \<in> set (db0 m)"
  shows "\<exists>y \<in> set (s m). unflag y = unflag y0"
proof -
  from assms(2) have "unflag y0 \<in> set (map unflag (db0 m))" by simp
  with assms(1) have "unflag y0 \<in> set (map unflag (s m))" by (simp add: same_docs_def)
  then show ?thesis by auto
qed

lemma same_docs_model:
  assumes wf: "wf_db db0" and s: "same_docs s db0" and y: "y \<in> set (s m)"
  shows "doc_model y = m"
proof -
  from y have "unflag y \<in> set (map unflag (s m))" by simp
  with s have "unflag y \<in> set (map unflag (db0 m))" by (simp add: same_docs_def)
  then obtain y0 where y0: "y0 \<in> set (db0 m)" "unflag y = unflag y0" by auto
  from wf y0(1) have "doc_model y0 = m" by (simp add: wf_db_def)
  with unflag_eq(2) [OF y0(2)] show ?thesis by simp
qed

lemma same_docs_store_deleted:
  assumes "same_docs s db0"
  shows "same_docs (store_deleted d f s) db0"
proof -
  have "unflag (if doc_id x = doc_id d then x\<lparr>doc_deleted := f\<rparr> else x) = unflag x" for x
    by (simp add: unflag_flag)
  with assms show ?thesis by (simp add: same_docs_def store_deleted_def comp_def)
qed

lemma sub_db_model:
  assumes "wf_db db0" and "sub_db s db0" and "y \<in> set (s m)"
  shows "doc_model y = m"
  using assms by (auto simp: wf_db_def sub_db_def)

text \<open>
  Enough fuel for a cascade. In a database whose documents lie in the collection of
  their model, when a rank decreases along every cascade, a counter above the ranks of
  the documents of the referencing collection gives the result of every larger counter,
  and that result is not \<open>FuelExhausted\<close>. On a hard delete the registry is taken
  without set-null descriptors, which rewrite documents through the update of the store.
\<close>

lemma cascade_enough_fuel:
  assumes wf: "wf_db db" and rk: "ranked rs M rank"
    and mode: "if ctx_softDelete c then rank_blind rank else all_required rs"
    and st: "rt_required st" "rt_cascade st"
    and n: "sum_list (map rank (db modelRef)) < n" "n \<le> m"
  shows "onDeleteConditions M ms (doc_ops rs M m) st modelRef pathRef modelSubRef pathSubRef
           vs b c db =
         onDeleteConditions M ms (doc_ops rs M n) st modelRef pathRef modelSubRef pathSubRef
           vs b c db \<and>
         fst (onDeleteConditions M ms (doc_ops rs M n) st modelRef pathRef modelSubRef
           pathSubRef vs b c db) \<noteq> Inl FuelExhausted"
proof -
  have bound: "\<forall>y \<in> set (db modelRef). rank y < n"
  proof
    fix y assume "y \<in> set (db modelRef)"
    then have "rank y \<in> set (map rank (db modelRef))" by simp
    then have "rank y \<le> sum_list (map rank (db modelRef))" by (simp add: member_le_sum_list)
    with n(1) show "rank y < n" by simp
  qed
  have cn: "ctx_norm (ctx_norm c) = ctx_norm c" by (simp add: ctx_norm_simps)
  have rb: "ctx_softDelete (ctx_norm c) \<longrightarrow> rank_blind rank"
    using mode by (simp add: ctx_norm_simps split: if_splits)
  have md: "ctx_softDelete (ctx_norm c) \<or> all_required rs"
    using mode by (simp add: ctx_norm_simps split: if_splits)
  have "onDeleteConditions M ms (doc_ops rs M m) st modelRef pathRef modelSubRef pathSubRef
           vs b (ctx_norm c) db =
         onDeleteConditions M ms (doc_ops rs M n) st modelRef pathRef modelSubRef pathSubRef
           vs b (ctx_norm c) db \<and>
         fst (onDeleteConditions M ms (doc_ops rs M n) st modelRef pathRef modelSubRef
           pathSubRef vs b (ctx_norm c) db) \<noteq> Inl FuelExhausted"
  proof (cases "ctx_softDelete c")
    case False
    have im: "\<forall>t m y. sub_db t db \<and> y \<in> set (t m) \<longrightarrow> doc_model y = m"
      using sub_db_model [OF wf] by blast
    have fin: "\<forall>t d. sub_db t db \<longrightarrow> sub_db (finish (ctx_norm c) d t) db"
      using False sub_db_trans [OF sub_db_remove_doc]
      by (simp add: finish_def ctx_norm_simps)
    from cascade_fuel [where Inv = "\<lambda>t. sub_db t db", OF cn rk rb md im fin st sub_db_refl
        bound n(2)]
    show ?thesis by blast
  next
    case True
    have im: "\<forall>t m y. same_docs t db \<and> y \<in> set (t m) \<longrightarrow> doc_model y = m"
      using same_docs_model [OF wf] by blast
    have fin: "\<forall>t d. same_docs t db \<longrightarrow> same_docs (finish (ctx_norm c) d t) db"
      using True by (simp add: finish_def ctx_norm_simps same_docs_store_deleted)
    from cascade_fuel [where Inv = "\<lambda>t. same_docs t db", OF cn rk rb md im fin st
        same_docs_refl bound n(2)]
    show ?thesis by blast
  qed
  then show ?thesis by (simp add: onDeleteConditions_norm)
qed

text \<open>
  What a removal with hooks does: on a document whose model carries the hooks of the
  plugin it first runs the enforcement of that document's own model, on the document and
  in the same delete context, with the same removals one level deeper; only when this
  succeeds it removes the document (hard) or stores the flag (soft).
\<close>

lemma removal_retrigger:
  "removal (doc_ops rs M (Suc n)) c d s =
     (if doc_model d \<in> set (hooked rs)
      then (case onDelete rs M (doc_ops rs M n) (doc_model d) (hook_doc c d) (ctx_norm c) s of
              (Inl e, s1) \<Rightarrow> (Inl e, s1)
            | (Inr u, s1) \<Rightarrow> (Inr (), finish c d s1))
      else (Inr (), finish c d s))"
proof -
  have cn: "ctx_norm (ctx_norm c) = ctx_norm c" by (simp add: ctx_norm_simps)
  have h: "hook_doc (ctx_norm c) d = hook_doc c d"
    by (simp add: hook_doc_def ctx_norm_simps)
  have f: "finish (ctx_norm c) d = finish c d"
    by (simp add: finish_def ctx_norm_simps)
  from removal_Suc [OF cn, of rs M n d s] show ?thesis
    by (simp only: removal_norm h f)
qed

section \<open>The hard cascade reaches every document\<close>

lemma cascade_hard_closure:
  assumes wf: "wf_db db0" and rq: "all_required rs"
    and st: "rt_required st" "rt_cascade st"
    and hard: "\<not> ctx_softDelete c"
    and ok: "onDeleteConditions M ms (doc_ops rs M n) st modelRef pathRef modelSubRef pathSubRef
               vs b c db0 = (Inr (), s')"
    and x: "x \<in> set (db0 modelRef)"
      "query_matches M (getFindQueryObjectFor modelRef pathRef vs b) x"
    and reach: "reaches rs M db0 x y"
  shows "absent y s'"
proof -
  let ?docs = "filter (query_matches M (getFindQueryObjectFor modelRef pathRef vs b)) (db0 modelRef)"
  have rem: "removal (doc_ops rs M n) c = op_deleteOne (doc_ops rs M n)"
    using hard by (intro ext) (simp add: removal_def)
  from ok st have p: "promise_all (map (op_deleteOne (doc_ops rs M n)) ?docs) db0 = (Inr (), s')"
    by (simp add: onDeleteConditions_def cascade_removal rem)
  have in0: "\<forall>y \<in> set ?docs. y \<in> set (db0 (doc_model y))"
    using wf by (auto simp: wf_db_def)
  have c0: "closed rs M db0 db0" by (auto simp: closed_def absent_def)
  from promise_all_deletes_closed [OF deleteOne_deletes_closed [OF wf rq] in0 sub_db_refl c0 p]
  have cl: "closed rs M db0 s'" and ad: "\<forall>y \<in> set ?docs. absent y s'"
    by simp_all
  from x have xd: "x \<in> set ?docs" by simp
  with in0 have x0: "x \<in> set (db0 (doc_model x))" by blast
  from reach have "y \<in> set (db0 (doc_model y)) \<and> absent y s'"
    unfolding reaches_def
  proof (induction rule: rtranclp_induct)
    case base
    from x0 ad xd show ?case by blast
  next
    case (step y z)
    with cl show ?case unfolding closed_def by blast
  qed
  then show ?thesis by simp
qed

section \<open>The soft cascade reaches every document\<close>

lemma flags_only_refl: "flags_only f s s"
  by (simp add: flags_only_def list_all2_same)

lemma flags_only_trans:
  assumes "flags_only f s2 s1" and "flags_only f s1 s"
  shows "flags_only f s2 s"
  unfolding flags_only_def
proof
  fix m
  from assms have a: "list_all2 (\<lambda>z' z. z' = z \<or> z' = z\<lparr>doc_deleted := f\<rparr>) (s2 m) (s1 m)"
    and b: "list_all2 (\<lambda>z' z. z' = z \<or> z' = z\<lparr>doc_deleted := f\<rparr>) (s1 m) (s m)"
    by (simp_all add: flags_only_def)
  have "\<And>a b c. a = b \<or> a = b\<lparr>doc_deleted := f\<rparr> \<Longrightarrow> b = c \<or> b = c\<lparr>doc_deleted := f\<rparr> \<Longrightarrow>
          a = c \<or> a = c\<lparr>doc_deleted := f\<rparr>"
    by auto
  from this a b show "list_all2 (\<lambda>z' z. z' = z \<or> z' = z\<lparr>doc_deleted := f\<rparr>) (s2 m) (s m)"
    by (rule list_all2_trans)
qed

lemma flags_only_store_deleted: "flags_only f (store_deleted d f s) s"
  by (simp add: flags_only_def store_deleted_def list_all2_map1 list_all2_same)

lemma flags_only_same_docs:
  assumes "flags_only f s' s" and "same_docs s db0"
  shows "same_docs s' db0"
proof -
  have "map unflag xs = map unflag ys"
    if "list_all2 (\<lambda>z' z. z' = z \<or> z' = z\<lparr>doc_deleted := f\<rparr>) xs ys" for xs ys
    using that by (induction rule: list_all2_induct) (auto simp: unflag_flag)
  note h = this
  show ?thesis
    unfolding same_docs_def
  proof
    fix m
    from assms(1) have "list_all2 (\<lambda>z' z. z' = z \<or> z' = z\<lparr>doc_deleted := f\<rparr>) (s' m) (s m)"
      by (simp add: flags_only_def)
    then have "map unflag (s' m) = map unflag (s m)" by (rule h)
    with assms(2) show "map unflag (s' m) = map unflag (db0 m)" by (simp add: same_docs_def)
  qed
qed

lemma flagged_mono:
  assumes y: "flagged f y s" and st: "flags_only f s' s"
  shows "flagged f y s'"
  unfolding flagged_def
proof (intro ballI impI)
  fix z' assume z': "z' \<in> set (s' (doc_model y))" and i: "doc_id z' = doc_id y"
  from st have l: "list_all2 (\<lambda>z' z. z' = z \<or> z' = z\<lparr>doc_deleted := f\<rparr>)
                     (s' (doc_model y)) (s (doc_model y))"
    by (simp add: flags_only_def)
  from z' obtain k where k: "k < length (s' (doc_model y))" "s' (doc_model y) ! k = z'"
    by (auto simp: in_set_conv_nth)
  from l k(1) have kl: "k < length (s (doc_model y))" by (simp add: list_all2_lengthD)
  from list_all2_nthD [OF l k(1)] k(2)
  have c: "z' = s (doc_model y) ! k \<or> z' = (s (doc_model y) ! k)\<lparr>doc_deleted := f\<rparr>"
    by simp
  from kl have m: "s (doc_model y) ! k \<in> set (s (doc_model y))" by simp
  from c show "doc_deleted z' = f"
  proof
    assume "z' = s (doc_model y) ! k"
    with m i y show ?thesis by (auto simp: flagged_def)
  next
    assume "z' = (s (doc_model y) ! k)\<lparr>doc_deleted := f\<rparr>"
    then show ?thesis by simp
  qed
qed

lemma flagged_store_deleted:
  "doc_id d0 = doc_id d \<Longrightarrow> doc_model d0 = doc_model d \<Longrightarrow> flagged f d0 (store_deleted d f s)"
  by (auto simp: flagged_def store_deleted_def)

lemma selects_unflag:
  assumes "unflag a = unflag b"
  shows "selects M mn r a y = selects M mn r b y"
proof -
  have g: "get a = get b"
    using unflag_eq(3) [OF assms] by (intro ext) (simp add: get_def)
  show ?thesis
    unfolding selects_def getReferencedValues_def boundRefValueOf_def g by (rule refl)
qed

lemma cascades_to_unflag:
  assumes "unflag a = unflag b"
  shows "cascades_to rs M a y = cascades_to rs M b y"
  using unflag_eq(2) [OF assms] selects_unflag [OF assms]
  by (simp add: cascades_to_def)

lemma flag_blind_match:
  assumes "flag_blind M" and "unflag y = unflag y0"
  shows "query_matches M q y = query_matches M q y0"
proof -
  from assms(1) have "query_matches M q (unflag z) = query_matches M q z" for z
    by (simp add: flag_blind_def unflag_def)
  from this [of y] this [of y0] assms(2) show ?thesis by simp
qed

lemma promise_all_flags:
  assumes op: "flags_reached rs M db0 f op"
    and s: "same_docs s db0"
    and ok: "promise_all (map op docs) s = (Inr (), s')"
  shows "flags_only f s' s \<and>
         (\<forall>y \<in> set docs. \<forall>y0 z. unflag y = unflag y0 \<and> reaches rs M db0 y0 z \<longrightarrow>
            flagged f z s')"
  using s ok
proof (induction docs arbitrary: s)
  case Nil
  then show ?case by (simp add: flags_only_refl)
next
  case (Cons x docs)
  from Cons.prems(2) obtain s1 where x: "op x s = (Inr (), s1)"
    and rest: "promise_all (map op docs) s1 = (Inr (), s')"
    using promise_all_success [of "op x" "map op docs" s s'] by auto
  from op Cons.prems(1) x have 1: "flags_only f s1 s"
    and b1: "\<forall>y0 z. unflag x = unflag y0 \<and> reaches rs M db0 y0 z \<longrightarrow> flagged f z s1"
    unfolding flags_reached_def by blast+
  from 1 Cons.prems(1) have s1: "same_docs s1 db0" by (rule flags_only_same_docs)
  from Cons.IH [OF s1 rest]
  have 2: "flags_only f s' s1"
    and b2: "\<forall>y \<in> set docs. \<forall>y0 z. unflag y = unflag y0 \<and> reaches rs M db0 y0 z \<longrightarrow>
               flagged f z s'"
    by blast+
  from 2 1 have "flags_only f s' s" by (rule flags_only_trans)
  moreover from b1 2 have "\<forall>y0 z. unflag x = unflag y0 \<and> reaches rs M db0 y0 z \<longrightarrow>
      flagged f z s'"
    using flagged_mono by blast
  ultimately show ?case using b2 by simp
qed

lemma soft_removal: "removal ops (Some \<lparr>softDelete = True, deleted = f\<rparr>) = (\<lambda>y. op_softDelete ops y f)"
  by (rule ext) (simp add: removal_def ctx_softDelete_def ctx_deleted_def)

lemma onDelete_one_flags:
  assumes op: "flags_reached rs M db0 f (\<lambda>y. op_softDelete ops y f)"
    and fb: "flag_blind M"
    and s: "same_docs s db0"
    and ok: "onDelete_one M ms ops mn x (Some \<lparr>softDelete = True, deleted = f\<rparr>) r s = (Inr (), s')"
  shows "flags_only f s' s \<and>
         (rt_required (d_schemaType r) \<and> rt_cascade (d_schemaType r) \<longrightarrow>
            (\<forall>y0 z. selects M mn r x y0 \<and> y0 \<in> set (db0 (doc_model y0)) \<and>
                    reaches rs M db0 y0 z \<longrightarrow> flagged f z s'))"
proof -
  let ?c = "Some \<lparr>softDelete = True, deleted = f\<rparr>"
  have soft: "ctx_softDelete ?c" by (simp add: ctx_softDelete_def)
  from ok obtain so sr vs where so: "rt_options (d_schemaType r) = Some so"
    and sr: "subRef so = Some sr"
    and vs: "getReferencedValues (drop (length mn + 1) sr) x = Inr vs"
    and c: "onDeleteConditions M ms ops (d_schemaType r) (d_modelName r) (d_path r) mn
              (drop (length mn + 1) sr) vs (boundRefValueOf so x) ?c s = (Inr (), s')"
    by (auto simp: onDelete_one_def Let_def split: option.splits sum.splits)
  let ?q = "getFindQueryObjectFor (d_modelName r) (d_path r) vs (boundRefValueOf so x)"
  show ?thesis
  proof (cases "rt_required (d_schemaType r) \<and> rt_cascade (d_schemaType r)")
    case False
    have "s' = s"
    proof (cases "rt_required (d_schemaType r)")
      case True
      with False c have "onDeleteBlock M (d_modelName r) (d_path r) mn (drop (length mn + 1) sr) vs
                      (boundRefValueOf so x) ?c s = (Inr (), s')"
        by (simp add: onDeleteConditions_def)
      with onDeleteBlock_db [of M "d_modelName r" "d_path r" mn "drop (length mn + 1) sr" vs
        "boundRefValueOf so x" ?c s]
      show ?thesis by simp
    next
      case nr: False
      with c soft show ?thesis by (simp add: onDeleteConditions_def onDeleteSetNull_def)
    qed
    with False show ?thesis using flags_only_refl by blast
  next
    case True
    let ?docs = "filter (query_matches M ?q) (s (d_modelName r))"
    from True c have p: "promise_all (map (\<lambda>y. op_softDelete ops y f) ?docs) s = (Inr (), s')"
      by (simp add: onDeleteConditions_def cascade_removal soft_removal)
    from promise_all_flags [OF op s p]
    have res: "flags_only f s' s"
      "\<forall>y \<in> set ?docs. \<forall>y0 z. unflag y = unflag y0 \<and> reaches rs M db0 y0 z \<longrightarrow> flagged f z s'"
      by blast+
    have "flagged f z s'"
      if y0: "selects M mn r x y0" "y0 \<in> set (db0 (doc_model y0))" "reaches rs M db0 y0 z"
      for y0 z
    proof -
      from y0(1) so sr vs have m: "doc_model y0 = d_modelName r" and q: "query_matches M ?q y0"
        by (auto simp: selects_def)
      from same_docs_member [OF s y0(2)] obtain y where y: "y \<in> set (s (doc_model y0))"
        "unflag y = unflag y0" by blast
      from flag_blind_match [OF fb y(2)] q have "query_matches M ?q y" by simp
      with y(1) m have "y \<in> set ?docs" by simp
      with res(2) y(2) y0(3) show ?thesis by blast
    qed
    with res(1) show ?thesis by blast
  qed
qed

lemma onDelete_loop_flags:
  assumes op: "flags_reached rs M db0 f (\<lambda>y. op_softDelete ops y f)"
    and fb: "flag_blind M"
    and s: "same_docs s db0"
    and ok: "onDelete_loop M ms ops mn x (Some \<lparr>softDelete = True, deleted = f\<rparr>) ds s = (Inr (), s')"
  shows "flags_only f s' s \<and>
         (\<forall>r \<in> set ds. rt_required (d_schemaType r) \<and> rt_cascade (d_schemaType r) \<longrightarrow>
            (\<forall>y0 z. selects M mn r x y0 \<and> y0 \<in> set (db0 (doc_model y0)) \<and>
                    reaches rs M db0 y0 z \<longrightarrow> flagged f z s'))"
  using s ok
proof (induction ds arbitrary: s)
  case Nil
  then show ?case by (simp add: flags_only_refl)
next
  case (Cons r ds)
  from Cons.prems(2) obtain s1
    where r: "onDelete_one M ms ops mn x (Some \<lparr>softDelete = True, deleted = f\<rparr>) r s = (Inr (), s1)"
    and rest: "onDelete_loop M ms ops mn x (Some \<lparr>softDelete = True, deleted = f\<rparr>) ds s1 = (Inr (), s')"
    by (auto split: prod.splits sum.splits)
  from onDelete_one_flags [OF op fb Cons.prems(1) r]
  have 1: "flags_only f s1 s"
    "rt_required (d_schemaType r) \<and> rt_cascade (d_schemaType r) \<longrightarrow>
            (\<forall>y0 z. selects M mn r x y0 \<and> y0 \<in> set (db0 (doc_model y0)) \<and>
                    reaches rs M db0 y0 z \<longrightarrow> flagged f z s1)"
    by simp_all
  from 1(1) Cons.prems(1) have s1: "same_docs s1 db0" by (rule flags_only_same_docs)
  from Cons.IH [OF s1 rest]
  have 2: "flags_only f s' s1"
    "\<forall>r \<in> set ds. rt_required (d_schemaType r) \<and> rt_cascade (d_schemaType r) \<longrightarrow>
            (\<forall>y0 z. selects M mn r x y0 \<and> y0 \<in> set (db0 (doc_model y0)) \<and>
                    reaches rs M db0 y0 z \<longrightarrow> flagged f z s')"
    by simp_all
  from 2(1) 1(1) have "flags_only f s' s" by (rule flags_only_trans)
  moreover from 1(2) 2(1) have "rt_required (d_schemaType r) \<and> rt_cascade (d_schemaType r) \<longrightarrow>
            (\<forall>y0 z. selects M mn r x y0 \<and> y0 \<in> set (db0 (doc_model y0)) \<and>
                    reaches rs M db0 y0 z \<longrightarrow> flagged f z s')"
    using flagged_mono by blast
  ultimately show ?case using 2(2) by simp
qed

lemma softDelete_flags_reached:
  assumes fb: "flag_blind M"
  shows "flags_reached rs M db0 f (\<lambda>y. op_softDelete (doc_ops rs M n) y f)"
proof (induction n)
  case 0
  then show ?case by (simp add: flags_reached_def)
next
  case (Suc n)
  let ?c = "Some \<lparr>softDelete = True, deleted = f\<rparr>"
  have hd: "hook_doc ?c d = d\<lparr>doc_deleted := f\<rparr>" for d
    by (simp add: hook_doc_def ctx_softDelete_def ctx_deleted_def)
  have fi: "finish ?c d = store_deleted d f" for d
    by (simp add: finish_def ctx_softDelete_def ctx_deleted_def)
  have cn: "ctx_norm ?c = ?c"
    by (simp add: ctx_norm_def ctx_softDelete_def ctx_deleted_def)
  have rem: "op_softDelete (doc_ops rs M (Suc n)) d f s =
     (if doc_model d \<in> set (hooked rs)
      then (case onDelete rs M (doc_ops rs M n) (doc_model d) (d\<lparr>doc_deleted := f\<rparr>) ?c s of
              (Inl e, s1) \<Rightarrow> (Inl e, s1)
            | (Inr u, s1) \<Rightarrow> (Inr (), store_deleted d f s1))
      else (Inr (), store_deleted d f s))" for d s
    using removal_retrigger [of rs M n ?c d s]
    unfolding soft_removal hd fi cn .
  show ?case
    unfolding flags_reached_def
  proof (intro allI impI)
    fix d d0 s s'
    assume a: "unflag d = unflag d0 \<and> same_docs s db0 \<and>
               op_softDelete (doc_ops rs M (Suc n)) d f s = (Inr (), s')"
    then have u: "unflag d = unflag d0" and s: "same_docs s db0"
      and ok: "op_softDelete (doc_ops rs M (Suc n)) d f s = (Inr (), s')"
      by simp_all
    have ux: "unflag (d\<lparr>doc_deleted := f\<rparr>) = unflag d0" using u by (simp add: unflag_flag)
    have self: "flagged f d0 (store_deleted d f t)" for t
      using unflag_eq(1,2) [OF u] by (intro flagged_store_deleted) simp_all
    show "flags_only f s' s \<and> (\<forall>z. reaches rs M db0 d0 z \<longrightarrow> flagged f z s')"
    proof (cases "doc_model d \<in> set (hooked rs)")
      case False
      with ok have s': "s' = store_deleted d f s" by (simp add: rem del: doc_ops.simps)
      have "flagged f z s'" if "reaches rs M db0 d0 z" for z
        using that unfolding reaches_def
      proof (cases rule: converse_rtranclpE)
        case base
        with self s' show ?thesis by simp
      next
        case (step y)
        with False unflag_eq(2) [OF u] show ?thesis by (simp add: cascades_to_def)
      qed
      then show ?thesis by (simp add: s' flags_only_store_deleted)
    next
      case True
      with ok obtain s1
        where od: "onDelete rs M (doc_ops rs M n) (doc_model d) (d\<lparr>doc_deleted := f\<rparr>) ?c s
                     = (Inr (), s1)"
        and s': "s' = store_deleted d f s1"
        by (auto simp: rem simp del: doc_ops.simps split: prod.splits sum.splits)
      from od obtain ds where ds: "refs rs (doc_model d) = Some ds"
        and loop: "onDelete_loop M (compiled rs) (doc_ops rs M n) (doc_model d)
                     (d\<lparr>doc_deleted := f\<rparr>) ?c ds s = (Inr (), s1)"
        by (auto simp: onDelete_def split: option.splits)
      from onDelete_loop_flags [OF Suc fb s loop]
      have 1: "flags_only f s1 s"
        "\<forall>r \<in> set ds. rt_required (d_schemaType r) \<and> rt_cascade (d_schemaType r) \<longrightarrow>
            (\<forall>y0 z. selects M (doc_model d) r (d\<lparr>doc_deleted := f\<rparr>) y0 \<and>
                    y0 \<in> set (db0 (doc_model y0)) \<and> reaches rs M db0 y0 z \<longrightarrow> flagged f z s1)"
        by simp_all
      have st: "flags_only f s' s1" by (simp add: s' flags_only_store_deleted)
      have "flagged f z s'" if "reaches rs M db0 d0 z" for z
        using that unfolding reaches_def
      proof (cases rule: converse_rtranclpE)
        case base
        with self s' show ?thesis by simp
      next
        case (step y)
        then have cy: "cascades_to rs M d0 y" and y0: "y \<in> set (db0 (doc_model y))"
          and yz: "reaches rs M db0 y z"
          by (simp_all add: reaches_def)
        from cy have "cascades_to rs M (d\<lparr>doc_deleted := f\<rparr>) y"
          using cascades_to_unflag [OF ux] by simp
        with ds obtain r where "r \<in> set ds" "rt_required (d_schemaType r)"
          "rt_cascade (d_schemaType r)" "selects M (doc_model d) r (d\<lparr>doc_deleted := f\<rparr>) y"
          by (auto simp: cascades_to_def)
        with 1(2) y0 yz have "flagged f z s1" by blast
        then show ?thesis using st by (rule flagged_mono)
      qed
      moreover from st 1(1) have "flags_only f s' s" by (rule flags_only_trans)
      ultimately show ?thesis by simp
    qed
  qed
qed

lemma cascade_soft_closure:
  assumes wf: "wf_db db0" and fb: "flag_blind M"
    and st: "rt_required st" "rt_cascade st"
    and soft: "ctx_softDelete c"
    and ok: "onDeleteConditions M ms (doc_ops rs M n) st modelRef pathRef modelSubRef pathSubRef
               vs b c db0 = (Inr (), s')"
    and x: "x \<in> set (db0 modelRef)"
      "query_matches M (getFindQueryObjectFor modelRef pathRef vs b) x"
    and reach: "reaches rs M db0 x y"
  shows "y\<lparr>doc_deleted := ctx_deleted c\<rparr> \<in> set (s' (doc_model y))"
proof -
  let ?f = "ctx_deleted c"
  let ?docs = "filter (query_matches M (getFindQueryObjectFor modelRef pathRef vs b)) (db0 modelRef)"
  have rem: "removal (doc_ops rs M n) c = (\<lambda>y. op_softDelete (doc_ops rs M n) y ?f)"
    using soft by (intro ext) (simp add: removal_def)
  from ok st
  have p: "promise_all (map (\<lambda>y. op_softDelete (doc_ops rs M n) y ?f) ?docs) db0 = (Inr (), s')"
    by (simp add: onDeleteConditions_def cascade_removal rem)
  from promise_all_flags [OF softDelete_flags_reached [OF fb] same_docs_refl p]
  have res: "flags_only ?f s' db0"
    "\<forall>y \<in> set ?docs. \<forall>y0 z. unflag y = unflag y0 \<and> reaches rs M db0 y0 z \<longrightarrow> flagged ?f z s'"
    by blast+
  from x have "x \<in> set ?docs" by simp
  with res(2) reach have fl: "flagged ?f y s'" by blast
  from wf x(1) have "x \<in> set (db0 (doc_model x))" by (auto simp: wf_db_def)
  with reach have y0: "y \<in> set (db0 (doc_model y))"
    unfolding reaches_def by (induction rule: rtranclp_induct) simp_all
  from res(1) same_docs_refl have "same_docs s' db0" by (rule flags_only_same_docs)
  from same_docs_member [OF this y0] obtain z where z: "z \<in> set (s' (doc_model y))"
    "unflag z = unflag y" by blast
  from fl z unflag_eq(1) [OF z(2)] have "doc_deleted z = ?f" by (simp add: flagged_def)
  from unflag_with_flag [OF this z(2)] z(1) show ?thesis by simp
qed

section \<open>The cascade, with the hooks of the plugin\<close>

text \<open>
  C2. For a descriptor with \<open>required\<close> and \<open>cascade\<close>, enforcement is the cascade: it finds
  all the documents of the referencing collection that the find query matches and calls
  on each the removal the context asks for, \<open>deleteOne\<close> on a hard delete and \<open>softDelete\<close>
  with the context's flag on a soft delete, under \<open>Promise.all\<close>. Every one of these
  calls is made, each on the state the calls before it left; the cascade returns when
  they all succeed, and throws the error of a call that failed otherwise.

  With the hooks the plugin installs, the removal of a matched document runs the
  enforcement of that document's own model first, in the same context and with the same
  removals, and removes or flags the document only when this succeeds. Hence the cascade
  is transitive. In a database whose documents lie in the collection of their model with
  distinct ids:
  \<^item> when a rank decreases along every cascade (the references have no cycle), every
    nesting counter above the ranks of the referencing collection gives one and the same
    result, which is not \<open>FuelExhausted\<close>: the cascade returns;
  \<^item> when it returns without error, every matched document and every document of the
    database reached from one through cascading descriptors, at any depth, is gone from
    its collection (hard delete) or is in its collection with the context's flag (soft
    delete).

  On a hard delete the registry is taken without set-null descriptors, because a
  set-null rewrites documents through the update of the store, which is a parameter; on a
  soft delete, where no policy updates a document, the registry is arbitrary and the
  matching of the store is taken not to read the flag.
\<close>

theorem C2_cascade_reinvokes_removal:
  assumes "rt_required st" and "rt_cascade st"
  shows
    "let docs = filter (query_matches M (if truthy b then ById b else PathIn pathRef vs))
                  (db modelRef);
         run = (\<lambda>ops. onDeleteConditions M ms ops st modelRef pathRef modelSubRef pathSubRef
                         vs b c db);
         before = (\<lambda>i. fold (\<lambda>d s. snd (removal ops c d s)) (take i docs) db)
     in run ops = promise_all (map (removal ops c) docs) db
        \<and> snd (run ops) = before (length docs)
        \<and> ((fst (run ops) = Inr ()) =
             (\<forall>i < length docs. fst (removal ops c (docs ! i) (before i)) = Inr ()))
        \<and> (\<forall>e. fst (run ops) = Inl e \<longrightarrow>
              (\<exists>i < length docs. fst (removal ops c (docs ! i) (before i)) = Inl e))
        \<and> (\<forall>n d s. removal (doc_ops rs M (Suc n)) c d s =
              (if doc_model d \<in> set (hooked rs)
               then (case onDelete rs M (doc_ops rs M n) (doc_model d) (hook_doc c d)
                            (ctx_norm c) s of
                       (Inl e, s1) \<Rightarrow> (Inl e, s1)
                     | (Inr u, s1) \<Rightarrow> (Inr (), finish c d s1))
               else (Inr (), finish c d s)))
        \<and> (wf_db db \<and> ranked rs M rank \<and>
            (if ctx_softDelete c then rank_blind rank else all_required rs) \<longrightarrow>
              (\<forall>n m. sum_list (map rank (db modelRef)) < n \<and> n \<le> m \<longrightarrow>
                 run (doc_ops rs M m) = run (doc_ops rs M n) \<and>
                 fst (run (doc_ops rs M n)) \<noteq> Inl FuelExhausted))
        \<and> (wf_db db \<and> (if ctx_softDelete c then flag_blind M else all_required rs) \<longrightarrow>
              (\<forall>n s' x y. run (doc_ops rs M n) = (Inr (), s') \<and> x \<in> set docs \<and>
                           reaches rs M db x y \<longrightarrow>
                 (if ctx_softDelete c
                  then y\<lparr>doc_deleted := ctx_deleted c\<rparr> \<in> set (s' (doc_model y))
                  else y \<notin> set (s' (doc_model y)))))"
proof -
  define docs where
    "docs = filter (query_matches M (if truthy b then ById b else PathIn pathRef vs)) (db modelRef)"
  define run where
    "run = (\<lambda>ops. onDeleteConditions M ms ops st modelRef pathRef modelSubRef pathSubRef
                         vs b c db)"
  define op where "op = removal ops c"
  have q: "getFindQueryObjectFor modelRef pathRef vs b =
           (if truthy b then ById b else PathIn pathRef vs)"
    by (simp add: getFindQueryObjectFor_def)
  have r: "run ops = promise_all (map op docs) db"
    using assms
    by (simp add: run_def op_def docs_def onDeleteConditions_def cascade_removal q)
  have pre: "fold (\<lambda>t s. snd (t s)) (take i (map op docs)) db =
             fold (\<lambda>d s. snd (op d s)) (take i docs) db" for i
    by (simp add: take_map fold_map comp_def)
  have st: "snd (run ops) = fold (\<lambda>d s. snd (op d s)) (take (length docs) docs) db"
    using pre [of "length docs"] by (simp add: r promise_all_state)
  have ok: "(fst (run ops) = Inr ()) =
            (\<forall>i < length docs.
               fst (op (docs ! i) (fold (\<lambda>d s. snd (op d s)) (take i docs) db)) = Inr ())"
    unfolding r promise_all_ok by (simp add: pre)
  have err: "\<exists>i < length docs.
               fst (op (docs ! i) (fold (\<lambda>d s. snd (op d s)) (take i docs) db)) = Inl e"
    if "fst (run ops) = Inl e" for e
  proof -
    from that promise_all_error [of "map op docs" db e]
    obtain i where "i < length (map op docs)"
      "fst ((map op docs ! i) (fold (\<lambda>t s. snd (t s)) (take i (map op docs)) db)) = Inl e"
      unfolding r by blast
    then show ?thesis by (auto simp: pre)
  qed
  have fuel: "run (doc_ops rs M m) = run (doc_ops rs M n) \<and>
              fst (run (doc_ops rs M n)) \<noteq> Inl FuelExhausted"
    if "wf_db db" "ranked rs M rank"
      "if ctx_softDelete c then rank_blind rank else all_required rs"
      "sum_list (map rank (db modelRef)) < n" "n \<le> m" for n m
    unfolding run_def using that(1,2,3) assms that(4,5) by (rule cascade_enough_fuel)
  have reach: "if ctx_softDelete c
                  then y\<lparr>doc_deleted := ctx_deleted c\<rparr> \<in> set (s' (doc_model y))
                  else y \<notin> set (s' (doc_model y))"
    if wf: "wf_db db" and mode: "if ctx_softDelete c then flag_blind M else all_required rs"
      and res: "run (doc_ops rs M n) = (Inr (), s')" and x: "x \<in> set docs"
      and xy: "reaches rs M db x y" for n s' x y
  proof (cases "ctx_softDelete c")
    case True
    with mode have fb: "flag_blind M" by simp
    from x have x1: "x \<in> set (db modelRef)"
      and x2: "query_matches M (getFindQueryObjectFor modelRef pathRef vs b) x"
      by (simp_all add: docs_def q)
    from cascade_soft_closure [OF wf fb assms True res [unfolded run_def] x1 x2 xy] True
    show ?thesis by simp
  next
    case False
    with mode have rq: "all_required rs" by simp
    from x have x1: "x \<in> set (db modelRef)"
      and x2: "query_matches M (getFindQueryObjectFor modelRef pathRef vs b) x"
      by (simp_all add: docs_def q)
    from cascade_hard_closure [OF wf rq assms False res [unfolded run_def] x1 x2 xy] False
    show ?thesis by (simp add: absent_def)
  qed
  from r st ok err removal_retrigger [of rs M _ c] fuel reach show ?thesis
    unfolding Let_def docs_def [symmetric] run_def [symmetric] op_def [symmetric]
    by blast
qed

text \<open>The chain of the examples has a rank, and the store of the examples does not read the flag.\<close>

lemma chain_ranked: "ranked chain_reg example_store chain_rank"
  by (auto simp: ranked_def cascades_to_def selects_def chain_refs chain_rank_def
      split: if_splits)

lemma chain_rank_blind: "rank_blind chain_rank"
  by (simp add: rank_blind_def chain_rank_def)

lemma example_store_flag_blind: "flag_blind example_store"
proof -
  have "example_matches q (d\<lparr>doc_deleted := f\<rparr>) = example_matches q d" for q d f
    by (cases q) (simp_all add: get_def)
  then show ?thesis by (simp add: flag_blind_def example_store_def)
qed

lemma chain_cascade_any_fuel:
  "onDeleteConditions example_store (compiled chain_reg)
       (doc_ops chain_reg example_store (Suc (Suc n)))
       cascade_type ''Message'' ''contact'' ''Person'' ''contacts'' [Oid 1, Oid 2] JNull None
       chain_db =
     (Inr (), chain_db(''Receipt'' := [chain_receipt 21 110],
                       ''Message'' := [chain_message 11 5 110]))"
  by (simp add: onDeleteConditions_def onDeleteCascade_def cascade_type_def
      getFindQueryObjectFor_def find_docs_def ctx_softDelete_def ctx_deleted_def
      example_store_def chain_db_def chain_message_def chain_receipt_def get_def
      onDelete_def onDelete_one_def chain_reg_value getReferencedValues_def
      boundRefValueOf_def remove_doc_def of_stype_def ref_field_def Let_def fun_upd_twist)

lemma chain_soft_cascade_any_fuel:
  "onDeleteConditions example_store (compiled chain_reg)
       (doc_ops chain_reg example_store (Suc (Suc n)))
       cascade_type ''Message'' ''contact'' ''Person'' ''contacts'' [Oid 1, Oid 2] JNull
       (Some \<lparr>softDelete = True, deleted = True\<rparr>) chain_db =
     (Inr (), chain_db(''Receipt'' := [(chain_receipt 20 100)\<lparr>doc_deleted := True\<rparr>,
                                       chain_receipt 21 110],
                       ''Message'' := [(chain_message 10 1 100)\<lparr>doc_deleted := True\<rparr>,
                                       chain_message 11 5 110]))"
  by (simp add: onDeleteConditions_def onDeleteCascade_def cascade_type_def
      getFindQueryObjectFor_def find_docs_def ctx_softDelete_def ctx_deleted_def
      example_store_def chain_db_def chain_message_def chain_receipt_def get_def
      onDelete_def onDelete_one_def chain_reg_value getReferencedValues_def
      preSoftDelete_hook_def store_deleted_def
      boundRefValueOf_def of_stype_def ref_field_def Let_def fun_upd_twist)

theorem C2_cascade_witness:
  "rt_required cascade_type \<and> rt_cascade cascade_type \<and> wf_db chain_db \<and>
   ranked chain_reg example_store chain_rank \<and> all_required chain_reg \<and>
   rank_blind chain_rank \<and> flag_blind example_store \<and>
   sum_list (map chain_rank (chain_db ''Message'')) < Suc (Suc (Suc 0)) \<and>
   onDeleteConditions example_store (compiled chain_reg)
       (doc_ops chain_reg example_store (Suc (Suc (Suc (Suc (Suc 0))))))
       cascade_type ''Message'' ''contact'' ''Person'' ''contacts'' [Oid 1, Oid 2] JNull None
       chain_db =
     onDeleteConditions example_store (compiled chain_reg)
       (doc_ops chain_reg example_store (Suc (Suc (Suc 0))))
       cascade_type ''Message'' ''contact'' ''Person'' ''contacts'' [Oid 1, Oid 2] JNull None
       chain_db \<and>
   fst (onDeleteConditions example_store (compiled chain_reg)
       (doc_ops chain_reg example_store (Suc (Suc (Suc 0))))
       cascade_type ''Message'' ''contact'' ''Person'' ''contacts'' [Oid 1, Oid 2] JNull None
       chain_db) \<noteq> Inl FuelExhausted \<and>
   chain_message 10 1 100 \<notin>
     set (snd (onDeleteConditions example_store (compiled chain_reg)
       (doc_ops chain_reg example_store (Suc (Suc (Suc 0))))
       cascade_type ''Message'' ''contact'' ''Person'' ''contacts'' [Oid 1, Oid 2] JNull None
       chain_db) ''Message'') \<and>
   chain_receipt 20 100 \<notin>
     set (snd (onDeleteConditions example_store (compiled chain_reg)
       (doc_ops chain_reg example_store (Suc (Suc (Suc 0))))
       cascade_type ''Message'' ''contact'' ''Person'' ''contacts'' [Oid 1, Oid 2] JNull None
       chain_db) ''Receipt'') \<and>
   onDeleteConditions example_store (compiled chain_reg)
       (doc_ops chain_reg example_store (Suc (Suc (Suc (Suc (Suc 0))))))
       cascade_type ''Message'' ''contact'' ''Person'' ''contacts'' [Oid 1, Oid 2] JNull
       (Some \<lparr>softDelete = True, deleted = True\<rparr>) chain_db =
     onDeleteConditions example_store (compiled chain_reg)
       (doc_ops chain_reg example_store (Suc (Suc (Suc 0))))
       cascade_type ''Message'' ''contact'' ''Person'' ''contacts'' [Oid 1, Oid 2] JNull
       (Some \<lparr>softDelete = True, deleted = True\<rparr>) chain_db \<and>
   (chain_receipt 20 100)\<lparr>doc_deleted := True\<rparr> \<in>
     set (snd (onDeleteConditions example_store (compiled chain_reg)
       (doc_ops chain_reg example_store (Suc (Suc (Suc 0))))
       cascade_type ''Message'' ''contact'' ''Person'' ''contacts'' [Oid 1, Oid 2] JNull
       (Some \<lparr>softDelete = True, deleted = True\<rparr>) chain_db) ''Receipt'') \<and>
   op_deleteOne (doc_ops chain_reg example_store (Suc (Suc 0))) (chain_message 10 1 100) chain_db =
     (case onDelete chain_reg example_store (doc_ops chain_reg example_store (Suc 0)) ''Message''
             (chain_message 10 1 100) None chain_db of
        (Inl e, s1) \<Rightarrow> (Inl e, s1)
      | (Inr u, s1) \<Rightarrow> (Inr (), remove_doc (chain_message 10 1 100) s1))"
proof -
  let ?hard = "\<lambda>n. onDeleteConditions example_store (compiled chain_reg)
       (doc_ops chain_reg example_store n)
       cascade_type ''Message'' ''contact'' ''Person'' ''contacts'' [Oid 1, Oid 2] JNull None
       chain_db"
  let ?soft = "\<lambda>n. onDeleteConditions example_store (compiled chain_reg)
       (doc_ops chain_reg example_store n)
       cascade_type ''Message'' ''contact'' ''Person'' ''contacts'' [Oid 1, Oid 2] JNull
       (Some \<lparr>softDelete = True, deleted = True\<rparr>) chain_db"
  let ?R = "\<lambda>a b. cascades_to chain_reg example_store a b \<and> b \<in> set (chain_db (doc_model b))"
  have r: "rt_required cascade_type" and c: "rt_cascade cascade_type"
    by (simp_all add: cascade_type_def)
  have hard: "\<not> ctx_softDelete None"
    and soft: "ctx_softDelete (Some \<lparr>softDelete = True, deleted = True\<rparr>)"
    and flag: "ctx_deleted (Some \<lparr>softDelete = True, deleted = True\<rparr>)"
    by (simp_all add: ctx_softDelete_def ctx_deleted_def)
  have bound: "sum_list (map chain_rank (chain_db ''Message'')) < Suc (Suc (Suc 0))"
    by (simp add: chain_db_def chain_rank_def chain_message_def)
  have le: "Suc (Suc (Suc 0)) \<le> Suc (Suc (Suc (Suc (Suc 0))))" by simp
  have docs: "filter (query_matches example_store
                 (if truthy JNull then ById JNull else PathIn ''contact'' [Oid 1, Oid 2]))
               (chain_db ''Message'') = [chain_message 10 1 100]"
    by (simp add: example_store_def chain_db_def chain_message_def get_def)
  have m0: "reaches chain_reg example_store chain_db (chain_message 10 1 100)
              (chain_message 10 1 100)"
    by (simp add: reaches_def)
  have "?R (chain_message 10 1 100) (chain_receipt 20 100)"
    using chain_message_to_receipt by (simp add: chain_db_def chain_receipt_def)
  then have m1: "reaches chain_reg example_store chain_db (chain_message 10 1 100)
              (chain_receipt 20 100)"
    unfolding reaches_def by (rule r_into_rtranclp)
  have mm: "doc_model (chain_message 10 1 100) = ''Message''"
    and rm: "doc_model (chain_receipt 20 100) = ''Receipt''"
    by (simp_all add: chain_message_def chain_receipt_def)
  have rm': "removal ops None = op_deleteOne ops" for ops
    by (rule ext) (simp add: removal_def ctx_softDelete_def)
  have hk: "hook_doc None d = d" for d
    by (simp add: hook_doc_def ctx_softDelete_def)
  have fin: "finish None d = remove_doc d" for d
    by (simp add: finish_def ctx_softDelete_def)
  have cn: "ctx_norm None = None"
    by (simp add: ctx_norm_def ctx_softDelete_def)
  have hooked: "''Message'' \<in> set (hooked chain_reg)"
    by (simp add: chain_reg_value)
  note H = C2_cascade_reinvokes_removal [OF r c, of example_store JNull "''contact''"
      "[Oid 1, Oid 2]" chain_db "''Message''" "compiled chain_reg" "''Person''" "''contacts''"
      None "doc_ops chain_reg example_store (Suc (Suc 0))" chain_reg chain_rank,
      unfolded Let_def docs]
  note S = C2_cascade_reinvokes_removal [OF r c, of example_store JNull "''contact''"
      "[Oid 1, Oid 2]" chain_db "''Message''" "compiled chain_reg" "''Person''" "''contacts''"
      "Some \<lparr>softDelete = True, deleted = True\<rparr>"
      "doc_ops chain_reg example_store (Suc (Suc 0))" chain_reg chain_rank,
      unfolded Let_def docs]
  note Hr = H [THEN conjunct2, THEN conjunct2, THEN conjunct2, THEN conjunct2, THEN conjunct1]
  note Hf = H [THEN conjunct2, THEN conjunct2, THEN conjunct2, THEN conjunct2, THEN conjunct2,
      THEN conjunct1]
  note Hc = H [THEN conjunct2, THEN conjunct2, THEN conjunct2, THEN conjunct2, THEN conjunct2,
      THEN conjunct2]
  note Sf = S [THEN conjunct2, THEN conjunct2, THEN conjunct2, THEN conjunct2, THEN conjunct2,
      THEN conjunct1]
  note Sc = S [THEN conjunct2, THEN conjunct2, THEN conjunct2, THEN conjunct2, THEN conjunct2,
      THEN conjunct2]
  have hardF: "ctx_softDelete None = False"
    and softT: "ctx_softDelete (Some \<lparr>softDelete = True, deleted = True\<rparr>) = True"
    and flagT: "ctx_deleted (Some \<lparr>softDelete = True, deleted = True\<rparr>) = True"
    by (simp_all add: ctx_softDelete_def ctx_deleted_def)
  have hypf: "wf_db chain_db \<and> ranked chain_reg example_store chain_rank \<and>
              (if ctx_softDelete None then rank_blind chain_rank else all_required chain_reg)"
    using chain_wf chain_ranked chain_all_required hard by simp
  have hypc: "wf_db chain_db \<and>
              (if ctx_softDelete None then flag_blind example_store else all_required chain_reg)"
    using chain_wf chain_all_required hard by simp
  have hypsf: "wf_db chain_db \<and> ranked chain_reg example_store chain_rank \<and>
              (if ctx_softDelete (Some \<lparr>softDelete = True, deleted = True\<rparr>)
               then rank_blind chain_rank else all_required chain_reg)"
    using chain_wf chain_ranked chain_rank_blind soft by simp
  have hypsc: "wf_db chain_db \<and>
              (if ctx_softDelete (Some \<lparr>softDelete = True, deleted = True\<rparr>)
               then flag_blind example_store else all_required chain_reg)"
    using chain_wf example_store_flag_blind soft by simp
  from Hf [THEN mp, OF hypf, rule_format, OF conjI [OF bound le]]
  have h1: "?hard (Suc (Suc (Suc (Suc (Suc 0))))) = ?hard (Suc (Suc (Suc 0))) \<and>
            fst (?hard (Suc (Suc (Suc 0)))) \<noteq> Inl FuelExhausted" .
  have hv: "?hard (Suc (Suc (Suc 0))) = (Inr (), snd (?hard (Suc (Suc (Suc 0)))))"
    by (simp only: chain_cascade_any_fuel snd_conv)
  have x0: "chain_message 10 1 100 \<in> set [chain_message 10 1 100]" by simp
  from Hc [THEN mp, OF hypc, rule_format, OF conjI [OF hv conjI [OF x0 m0]],
      unfolded hardF if_False mm]
  have h2: "chain_message 10 1 100 \<notin> set (snd (?hard (Suc (Suc (Suc 0)))) ''Message'')" .
  from Hc [THEN mp, OF hypc, rule_format, OF conjI [OF hv conjI [OF x0 m1]],
      unfolded hardF if_False rm]
  have h3: "chain_receipt 20 100 \<notin> set (snd (?hard (Suc (Suc (Suc 0)))) ''Receipt'')" .
  from Sf [THEN mp, OF hypsf, rule_format, OF conjI [OF bound le]]
  have s1: "?soft (Suc (Suc (Suc (Suc (Suc 0))))) = ?soft (Suc (Suc (Suc 0)))"
    by (rule conjunct1)
  have sv: "?soft (Suc (Suc (Suc 0))) = (Inr (), snd (?soft (Suc (Suc (Suc 0)))))"
    by (simp only: chain_soft_cascade_any_fuel snd_conv)
  from Sc [THEN mp, OF hypsc, rule_format, OF conjI [OF sv conjI [OF x0 m1]],
      unfolded softT flagT if_True rm]
  have s2: "(chain_receipt 20 100)\<lparr>doc_deleted := True\<rparr> \<in>
              set (snd (?soft (Suc (Suc (Suc 0)))) ''Receipt'')" .
  from Hr [rule_format, of "Suc 0" "chain_message 10 1 100" chain_db,
      unfolded rm' hk fin cn mm if_P [OF hooked]]
  have h4: "op_deleteOne (doc_ops chain_reg example_store (Suc (Suc 0))) (chain_message 10 1 100)
              chain_db =
     (case onDelete chain_reg example_store (doc_ops chain_reg example_store (Suc 0)) ''Message''
             (chain_message 10 1 100) None chain_db of
        (Inl e, s1) \<Rightarrow> (Inl e, s1)
      | (Inr u, s1) \<Rightarrow> (Inr (), remove_doc (chain_message 10 1 100) s1))" .
  from r c chain_wf chain_ranked chain_all_required chain_rank_blind example_store_flag_blind
    bound h1 h2 h3 s1 s2 h4
  show ?thesis by blast
qed

text \<open>
  On a cycle the recursion has no end: the node that references its own part is matched
  by its own cascade, and the removal gives \<open>FuelExhausted\<close> with every counter, the
  database as it was.
\<close>

lemma cycle_never_returns:
  "op_deleteOne (doc_ops cycle_reg example_store n) cycle_node cycle_db =
     (Inl FuelExhausted, cycle_db)"
proof (induction n)
  case 0
  then show ?case by simp
next
  case (Suc n)
  have m: "doc_model cycle_node = ''Node''"
    and p: "getReferencedValues ''parts'' cycle_node = Inr [Oid 7]"
    by (simp_all add: cycle_node_def getReferencedValues_def get_def)
  have h: "''Node'' \<in> set (hooked cycle_reg)"
    and rf: "refs cycle_reg ''Node'' =
       Some [\<lparr>d_modelName = ''Node'', d_path = ''parent'',
          d_schemaType =
            \<lparr>rt_options = Some \<lparr>subRef = Some ''Node.parts'', boundTo = None\<rparr>,
             rt_required = True, rt_cascade = True\<rparr>\<rparr>]"
    by (simp_all add: cycle_reg_def)
  have docs: "filter (query_matches example_store (PathIn ''parent'' [Oid 7])) (cycle_db ''Node'')
                = [cycle_node]"
    by (simp add: cycle_db_def cycle_node_def get_def example_store_def)
  have "onDelete cycle_reg example_store (doc_ops cycle_reg example_store n) ''Node'' cycle_node
          None cycle_db = (Inl FuelExhausted, cycle_db)"
    using Suc
    by (simp add: onDelete_def rf onDelete_one_def p boundRefValueOf_def onDeleteConditions_def
        onDeleteCascade_def find_docs_def getFindQueryObjectFor_def ctx_softDelete_def docs
        Let_def)
  then show ?case by (simp add: h m)
qed

end
